theory Spec2Isabelle
  imports Main "HOL-Library.AList" "HOL-Library.Sublist"
begin

section \<open>Data model of controller/generic/metacontroller.go\<close>

text \<open>
  The supervisors of \<^verbatim>\<open>metacontroller.go\<close> own a map from definition keys to watch
  controllers and start, stop and recreate the watch controllers as the definitions
  demand. Everything a supervisor does to the outside (constructing, starting and
  stopping a watch controller, loading the configuration, talking to the work queue,
  sleeping) is recorded in a chronological trace of events, the newest event last.
\<close>

datatype error =
    BothEmpty
  | External string
  | NotFound string
  | UnexpectedKeyFormat string
  | Wrapped string error
  | WaitTimedOut int "error option"
  | NilDereference

text \<open>\<^verbatim>\<open>apierrors.IsNotFound(err)\<close>; a nil error is not a not-found error.\<close>

fun IsNotFound :: "error option \<Rightarrow> bool" where
  "IsNotFound (Some (NotFound _)) = True"
| "IsNotFound _ = False"

text \<open>
  A \<^verbatim>\<open>v1alpha1.GenericController\<close>: the namespace and name of its metadata, the rest of the
  metadata (labels, annotations, resource version, ...) and the spec. The types of the
  last two are declared outside this file and stay parameters.
\<close>

record ('m, 's) GenericController =
  Namespace :: string
  Name :: string
  Meta :: 'm
  Spec :: 's

text \<open>
  Modelled from the spec: the method \<^verbatim>\<open>Key()\<close> of \<^verbatim>\<open>GenericController\<close>, declared in the
  package \<^verbatim>\<open>apis/metacontroller/v1alpha1\<close>. The key of a definition is
  \<^verbatim>\<open>"{namespace}/{name}"\<close>.
\<close>

definition Key :: "('m, 's) GenericController \<Rightarrow> string" where
  "Key gc = Namespace gc @ ''/'' @ Name gc"

text \<open>
  A \<^verbatim>\<open>*watchController\<close>: \<open>wcRef\<close> is the identity of the allocated object, \<open>GCtlConfig\<close>
  the definition it was constructed from.
\<close>

record ('m, 's) watchController =
  wcRef :: nat
  GCtlConfig :: "('m, 's) GenericController"

datatype ('m, 's) event =
    EvLoad string
  | EvListGenericControllers
  | EvConfigFn
  | EvNew nat "('m, 's) GenericController"
  | EvStart "('m, 's) watchController" int
  | EvStop "('m, 's) watchController"
  | EvHandleError error
  | EvQueueAdd string
  | EvQueueAddRateLimited string
  | EvQueueForget string
  | EvQueueDone string
  | EvCloseStopCh
  | EvQueueShutDown
  | EvRecvDone
  | EvCloseDoneCh
  | EvWaitGroupWait
  | EvSleep int

text \<open>
  What a supervisor mutates after its construction: the contents of the map
  \<^verbatim>\<open>WatchControllers\<close> (an association list with the newest key last), the monotonic
  clock in nanoseconds, the trace, and the number of calls of \<^verbatim>\<open>newWatchController\<close>
  made so far.
\<close>

record ('m, 's) state =
  WatchControllers :: "(string \<times> ('m, 's) watchController) list"
  clock :: int
  trace :: "('m, 's) event list"
  nwcCalls :: nat

text \<open>
  \<^verbatim>\<open>newWatchController\<close> is declared in another file of the package. It may fail, and a
  later call with the same definition may succeed (resource discovery is retried), so
  the parameter \<open>nwc\<close> says for the n-th call and its definition whether the call fails.
  Every call allocates a fresh object.
\<close>

type_synonym ('m, 's) nwc = "nat \<Rightarrow> ('m, 's) GenericController \<Rightarrow> error option"

definition newWatchController ::
  "('m, 's) nwc \<Rightarrow> ('m, 's) GenericController \<Rightarrow> ('m, 's) state \<Rightarrow>
     (error + ('m, 's) watchController) \<times> ('m, 's) state" where
  "newWatchController nwc conf s =
     (let n = nwcCalls s;
          s' = s\<lparr>trace := trace s @ [EvNew n conf], nwcCalls := Suc n\<rparr>
      in case nwc n conf of
           Some err \<Rightarrow> (Inl err, s')
         | None \<Rightarrow> (Inr \<lparr>wcRef = n, GCtlConfig = conf\<rparr>, s'))"

definition wcStart :: "('m, 's) watchController \<Rightarrow> int \<Rightarrow> ('m, 's) state \<Rightarrow> ('m, 's) state" where
  "wcStart wc workerCount s = s\<lparr>trace := trace s @ [EvStart wc workerCount]\<rparr>"

definition wcStop :: "('m, 's) watchController \<Rightarrow> ('m, 's) state \<Rightarrow> ('m, 's) state" where
  "wcStop wc s = s\<lparr>trace := trace s @ [EvStop wc]\<rparr>"

section \<open>The CRD based supervisor\<close>

text \<open>\<^verbatim>\<open>strings.Split(key, "/")\<close> and \<^verbatim>\<open>cache.SplitMetaNamespaceKey\<close> of client-go.\<close>

fun splitOn :: "char \<Rightarrow> string \<Rightarrow> string list" where
  "splitOn c [] = [[]]"
| "splitOn c (x # xs) =
     (if x = c then [] # splitOn c xs
      else (case splitOn c xs of [] \<Rightarrow> [[x]] | p # ps \<Rightarrow> (x # p) # ps))"

definition SplitMetaNamespaceKey :: "string \<Rightarrow> error + (string \<times> string)" where
  "SplitMetaNamespaceKey key =
     (case splitOn CHR ''/'' key of
        [name] \<Rightarrow> Inr ([], name)
      | [ns, name] \<Rightarrow> Inr (ns, name)
      | _ \<Rightarrow> Inl (UnexpectedKeyFormat key))"

text \<open>
  \<^verbatim>\<open>syncGenericController\<close>. \<open>deq\<close> is \<^verbatim>\<open>apiequality.Semantic.DeepEqual\<close> on specs and
  \<open>workerCount\<close> the field \<^verbatim>\<open>WorkerCount\<close> of the embedded \<^verbatim>\<open>MetaController\<close>.
\<close>

definition syncGenericController ::
  "('m, 's) nwc \<Rightarrow> ('s \<Rightarrow> 's \<Rightarrow> bool) \<Rightarrow> int \<Rightarrow> ('m, 's) GenericController \<Rightarrow>
     ('m, 's) state \<Rightarrow> error option \<times> ('m, 's) state" where
  "syncGenericController nwc deq workerCount ctrl s =
     (let create = (\<lambda>s1.
            case newWatchController nwc ctrl s1 of
              (Inl err, s2) \<Rightarrow> (Some err, s2)
            | (Inr wc, s2) \<Rightarrow>
                (None, (wcStart wc workerCount s2)
                   \<lparr>WatchControllers := AList.update (Key ctrl) wc (WatchControllers s2)\<rparr>))
      in case map_of (WatchControllers s) (Key ctrl) of
           Some c \<Rightarrow>
             if deq (Spec ctrl) (Spec (GCtlConfig c)) then (None, s)
             else create ((wcStop c s)
                    \<lparr>WatchControllers := AList.delete (Key ctrl) (WatchControllers s)\<rparr>)
         | None \<Rightarrow> create s)"

text \<open>
  \<^verbatim>\<open>sync\<close>. \<open>lister\<close> is \<^verbatim>\<open>mc.Lister.GenericControllers(ns).Get(name)\<close> on the informer's
  cache as it is when the key is reconciled.
\<close>

type_synonym ('m, 's) lister = "string \<Rightarrow> string \<Rightarrow> error + ('m, 's) GenericController"

definition sync ::
  "('m, 's) nwc \<Rightarrow> ('s \<Rightarrow> 's \<Rightarrow> bool) \<Rightarrow> int \<Rightarrow> ('m, 's) lister \<Rightarrow> string \<Rightarrow>
     ('m, 's) state \<Rightarrow> error option \<times> ('m, 's) state" where
  "sync nwc deq workerCount lister key s =
     (case SplitMetaNamespaceKey key of
        Inl err \<Rightarrow> (Some err, s)
      | Inr (ns, name) \<Rightarrow>
          (case lister ns name of
             Inl err \<Rightarrow>
               if IsNotFound (Some err) then
                 (case map_of (WatchControllers s) key of
                    Some c \<Rightarrow>
                      (None, (wcStop c s)
                         \<lparr>WatchControllers := AList.delete key (WatchControllers s)\<rparr>)
                  | None \<Rightarrow> (None, s))
               else (Some err, s)
           | Inr ctrl \<Rightarrow> syncGenericController nwc deq workerCount ctrl s))"

text \<open>
  \<^verbatim>\<open>processNextWorkItem\<close>, given what \<^verbatim>\<open>mc.Queue.Get()\<close> returned: a key, or the sign that
  the queue was shut down. The result says whether the worker goes on.
\<close>

definition processNextWorkItem ::
  "('m, 's) nwc \<Rightarrow> ('s \<Rightarrow> 's \<Rightarrow> bool) \<Rightarrow> int \<Rightarrow> ('m, 's) lister \<Rightarrow> string \<times> bool \<Rightarrow>
     ('m, 's) state \<Rightarrow> bool \<times> ('m, 's) state" where
  "processNextWorkItem nwc deq workerCount lister item s =
     (case item of (key, quit) \<Rightarrow>
        if quit then (False, s)
        else (case sync nwc deq workerCount lister key s of
                (Some err, s1) \<Rightarrow>
                  (True, s1\<lparr>trace := trace s1 @
                     [EvHandleError (Wrapped (''Failed to sync key '' @ key @ '': Will re-queue'') err),
                      EvQueueAddRateLimited key, EvQueueDone key]\<rparr>)
              | (None, s1) \<Rightarrow>
                  (True, s1\<lparr>trace := trace s1 @ [EvQueueForget key, EvQueueDone key]\<rparr>)))"

text \<open>
  The worker of \<^verbatim>\<open>Start\<close>: \<^verbatim>\<open>for mc.processNextWorkItem() {}\<close>. The list holds what the
  successive calls of \<^verbatim>\<open>mc.Queue.Get()\<close> return (key, quit), each with the lister's cache
  of that moment. The loop ends at the first quit; when the list is used up the worker
  is blocked in \<^verbatim>\<open>Get\<close>.
\<close>

fun worker ::
  "('m, 's) nwc \<Rightarrow> ('s \<Rightarrow> 's \<Rightarrow> bool) \<Rightarrow> int \<Rightarrow> (string \<times> bool \<times> ('m, 's) lister) list \<Rightarrow>
     ('m, 's) state \<Rightarrow> ('m, 's) state" where
  "worker nwc deq workerCount [] s = s"
| "worker nwc deq workerCount ((key, quit, lister) # gets) s =
     (case processNextWorkItem nwc deq workerCount lister (key, quit) s of
        (True, s1) \<Rightarrow> worker nwc deq workerCount gets s1
      | (False, s1) \<Rightarrow> s1)"

text \<open>
  The event handlers. \<open>keyFunc\<close> is \<^verbatim>\<open>common.KeyFunc\<close>, declared in another package.
\<close>

definition enqueueGenericController ::
  "('o \<Rightarrow> error + string) \<Rightarrow> 'o \<Rightarrow> ('m, 's) state \<Rightarrow> ('m, 's) state" where
  "enqueueGenericController keyFunc obj s =
     (case keyFunc obj of
        Inl err \<Rightarrow> s\<lparr>trace := trace s @ [EvHandleError (Wrapped ''Enqueue failed'' err)]\<rparr>
      | Inr key \<Rightarrow> s\<lparr>trace := trace s @ [EvQueueAdd key]\<rparr>)"

definition updateGenericController ::
  "('o \<Rightarrow> error + string) \<Rightarrow> 'o \<Rightarrow> 'o \<Rightarrow> ('m, 's) state \<Rightarrow> ('m, 's) state" where
  "updateGenericController keyFunc old cur s = enqueueGenericController keyFunc cur s"

section \<open>The config based supervisor\<close>

text \<open>
  The fields of \<^verbatim>\<open>ConfigBasedMetaController\<close> that are set at construction and only read
  afterwards. \<^verbatim>\<open>GenericControllerAsConfigFn\<close> is nil (\<open>None\<close>) or a function, given by what
  it returns when it is called. Durations are nanoseconds, as \<^verbatim>\<open>time.Duration\<close>.
\<close>

record ('m, 's) ConfigBasedMetaController =
  WorkerCount :: int
  ConfigPath :: string
  GenericControllerAsConfigFn :: "(error + ('m, 's) GenericController list) option"
  GenericControllerConfigs :: "('m, 's) GenericController list"
  WaitTimeoutForCondition :: int
  WaitIntervalForCondition :: int

definition Second :: int where
  "Second = 1000000000"

definition Minute :: int where
  "Minute = 60 * Second"

type_synonym ('m, 's) ConfigBasedMetaControllerOption =
  "('m, 's) ConfigBasedMetaController \<Rightarrow> error + ('m, 's) ConfigBasedMetaController"

definition SetGenericControllerAsConfigFn ::
  "(error + ('m, 's) GenericController list) option \<Rightarrow> ('m, 's) ConfigBasedMetaControllerOption" where
  "SetGenericControllerAsConfigFn fn c = Inr (c\<lparr>GenericControllerAsConfigFn := fn\<rparr>)"

definition SetMetaControllerConfigPath ::
  "string \<Rightarrow> ('m, 's) ConfigBasedMetaControllerOption" where
  "SetMetaControllerConfigPath path c = Inr (c\<lparr>ConfigPath := path\<rparr>)"

text \<open>The loop that runs the options over the new instance; the first error ends it.\<close>

fun runOptions ::
  "('m, 's) ConfigBasedMetaControllerOption list \<Rightarrow> ('m, 's) ConfigBasedMetaController \<Rightarrow>
     error + ('m, 's) ConfigBasedMetaController" where
  "runOptions [] obj = Inr obj"
| "runOptions (opt # opts) obj =
     (case opt obj of Inl err \<Rightarrow> Inl err | Inr obj' \<Rightarrow> runOptions opts obj')"

text \<open>
  \<^verbatim>\<open>NewConfigBasedMetaController\<close>. \<open>Load\<close> is \<^verbatim>\<open>config.New(path).Load()\<close> and \<open>ListGCs\<close> is
  \<^verbatim>\<open>ListGenericControllers()\<close> on what it loaded, both of the package \<^verbatim>\<open>config\<close>. The
  options run over \<open>newObj\<close>, which has the defaults of the two durations and zero values
  elsewhere. The result comes with the events of the construction. The call of a nil
  function would be a nil dereference; the check before it excludes that. The map
  \<^verbatim>\<open>WatchControllers\<close> of the new instance is empty: \<open>initial\<close> is the state of a supervisor
  of either kind right after its construction, at the time \<open>now\<close> and after the events
  \<open>evs\<close>.
\<close>

abbreviation newObj :: "('m, 's) ConfigBasedMetaController" where
  "newObj \<equiv>
     \<lparr>WorkerCount = 0, ConfigPath = [], GenericControllerAsConfigFn = None,
      GenericControllerConfigs = [],
      WaitTimeoutForCondition = 30 * Minute,
      WaitIntervalForCondition = 1 * Second\<rparr>"

definition NewConfigBasedMetaController ::
  "(string \<Rightarrow> error + 'f) \<Rightarrow> ('f \<Rightarrow> error + ('m, 's) GenericController list) \<Rightarrow> int \<Rightarrow>
     ('m, 's) ConfigBasedMetaControllerOption list \<Rightarrow>
     (error + ('m, 's) ConfigBasedMetaController) \<times> ('m, 's) event list" where
  "NewConfigBasedMetaController Load ListGCs workerCount opts =
     (case runOptions opts newObj of
        Inl err \<Rightarrow> (Inl err, [])
      | Inr obj \<Rightarrow>
          if ConfigPath obj = [] \<and> GenericControllerAsConfigFn obj = None then (Inl BothEmpty, [])
          else
            (case (if ConfigPath obj \<noteq> [] then
                     (case Load (ConfigPath obj) of
                        Inl err \<Rightarrow> (Inl err, [EvLoad (ConfigPath obj)])
                      | Inr mconfigs \<Rightarrow>
                          (ListGCs mconfigs, [EvLoad (ConfigPath obj), EvListGenericControllers]))
                   else
                     (case GenericControllerAsConfigFn obj of
                        None \<Rightarrow> (Inl NilDereference, [])
                      | Some fn \<Rightarrow> (fn, [EvConfigFn]))) of
               (Inl gctlsAsConfigErr, evs) \<Rightarrow> (Inl gctlsAsConfigErr, evs)
             | (Inr gctlsAsConfig, evs) \<Rightarrow>
                 (Inr (obj\<lparr>GenericControllerConfigs := gctlsAsConfig,
                           WorkerCount := workerCount\<rparr>), evs)))"

definition initial :: "int \<Rightarrow> ('m, 's) event list \<Rightarrow> ('m, 's) state" where
  "initial now evs = \<lparr>WatchControllers = [], clock = now, trace = evs, nwcCalls = 0\<rparr>"

text \<open>
  \<^verbatim>\<open>startAllWatchControllers\<close>: the loop over \<^verbatim>\<open>mc.GenericControllerConfigs\<close>, then the
  method.
\<close>

fun startAllLoop ::
  "('m, 's) nwc \<Rightarrow> ('m, 's) ConfigBasedMetaController \<Rightarrow> ('m, 's) GenericController list \<Rightarrow>
     ('m, 's) state \<Rightarrow> (bool \<times> error option) \<times> ('m, 's) state" where
  "startAllLoop nwc mc [] s = ((True, None), s)"
| "startAllLoop nwc mc (conf # confs) s =
     (case map_of (WatchControllers s) (Key conf) of
        Some _ \<Rightarrow> startAllLoop nwc mc confs s
      | None \<Rightarrow>
          (case newWatchController nwc conf s of
             (Inl err, s1) \<Rightarrow>
               ((False, Some (Wrapped (''Failed to sync key '' @ Key conf) err)), s1)
           | (Inr wc, s1) \<Rightarrow>
               startAllLoop nwc mc confs
                 ((wcStart wc (WorkerCount mc) s1)
                    \<lparr>WatchControllers := AList.update (Key conf) wc (WatchControllers s1)\<rparr>)))"

definition startAllWatchControllers ::
  "('m, 's) nwc \<Rightarrow> ('m, 's) ConfigBasedMetaController \<Rightarrow> ('m, 's) state \<Rightarrow>
     (bool \<times> error option) \<times> ('m, 's) state" where
  "startAllWatchControllers nwc mc s = startAllLoop nwc mc (GenericControllerConfigs mc) s"

text \<open>
  The clock, in nanoseconds. How long things take is not decided by the code, so it is a
  parameter: a call of the condition that begins at the time \<open>t\<close> takes
  \<open>1 + pollTime tm t\<close> nanoseconds, and a sleep that begins at the time \<open>t\<close> lasts
  \<open>overSleep tm t\<close> nanoseconds longer than it was asked to. Time only goes forward and
  every call of the condition takes time, so no two calls of the condition begin at the
  same time, and no two sleeps: every course of time is the one of some \<open>tm\<close>.
\<close>

record timing =
  pollTime :: "int \<Rightarrow> nat"
  overSleep :: "int \<Rightarrow> nat"

text \<open>
  A \<^verbatim>\<open>time.Duration\<close> is a 64 bit integer. \<^verbatim>\<open>time.Since(start)\<close> is
  \<^verbatim>\<open>time.Now().Sub(start)\<close>, and \<^verbatim>\<open>Sub\<close> returns the largest or the smallest duration when the
  difference is out of range. \<^verbatim>\<open>time.Sleep(d)\<close> pauses for at least \<open>d\<close> and returns at
  once when \<open>d\<close> is not positive.
\<close>

definition maxDuration :: int where
  "maxDuration = 9223372036854775807"

definition minDuration :: int where
  "minDuration = - 9223372036854775808"

definition timeNow :: "('m, 's) state \<Rightarrow> int" where
  "timeNow s = clock s"

definition timeSince :: "int \<Rightarrow> ('m, 's) state \<Rightarrow> int" where
  "timeSince start s = max minDuration (min maxDuration (clock s - start))"

definition timeSleep :: "nat \<Rightarrow> int \<Rightarrow> ('m, 's) state \<Rightarrow> ('m, 's) state" where
  "timeSleep late d s =
     s\<lparr>clock := clock s + max 0 d + int late, trace := trace s @ [EvSleep d]\<rparr>"

text \<open>
  The call \<^verbatim>\<open>done, err := condition()\<close> in the loop of \<^verbatim>\<open>wait\<close>: the state is the one the
  condition leaves, and the time is the time at which the call began plus what the call
  took; the clock is not the condition's to set.
\<close>

definition poll ::
  "timing \<Rightarrow> (('m, 's) state \<Rightarrow> (bool \<times> error option) \<times> ('m, 's) state) \<Rightarrow> ('m, 's) state \<Rightarrow>
     (bool \<times> error option) \<times> ('m, 's) state" where
  "poll tm condition s =
     (case condition s of
        (r, s1) \<Rightarrow> (r, s1\<lparr>clock := clock s + 1 + int (pollTime tm (clock s))\<rparr>))"

text \<open>
  \<^verbatim>\<open>wait\<close>: the loop, which may run forever (\<open>None\<close>), and the method, which marks the
  start time first.
\<close>

partial_function (option) waitLoop ::
  "timing \<Rightarrow> ('m, 's) ConfigBasedMetaController \<Rightarrow> int \<Rightarrow>
     (('m, 's) state \<Rightarrow> (bool \<times> error option) \<times> ('m, 's) state) \<Rightarrow> ('m, 's) state \<Rightarrow>
     (error option \<times> ('m, 's) state) option" where
  "waitLoop tm mc start condition s =
     (case poll tm condition s of
        ((done, err), s1) \<Rightarrow>
          if err = None \<and> done then Some (None, s1)
          else if timeSince start s1 > WaitTimeoutForCondition mc then
            Some (Some (WaitTimedOut (WaitTimeoutForCondition mc) err), s1)
          else waitLoop tm mc start condition
                 (timeSleep (overSleep tm (clock s1)) (WaitIntervalForCondition mc) s1))"

declare waitLoop.simps [code]

definition wait ::
  "timing \<Rightarrow> ('m, 's) ConfigBasedMetaController \<Rightarrow>
     (('m, 's) state \<Rightarrow> (bool \<times> error option) \<times> ('m, 's) state) \<Rightarrow> ('m, 's) state \<Rightarrow>
     (error option \<times> ('m, 's) state) option" where
  "wait tm mc condition s = waitLoop tm mc (timeNow s) condition s"

text \<open>
  The state in which the round \<open>n\<close> of the loop begins, counted from 0, when no round
  before it has ended the loop: every round before it has called the condition and slept.
\<close>

fun loopState ::
  "timing \<Rightarrow> ('m, 's) ConfigBasedMetaController \<Rightarrow>
     (('m, 's) state \<Rightarrow> (bool \<times> error option) \<times> ('m, 's) state) \<Rightarrow> nat \<Rightarrow> ('m, 's) state \<Rightarrow>
     ('m, 's) state" where
  "loopState tm mc condition 0 s = s"
| "loopState tm mc condition (Suc n) s =
     loopState tm mc condition n
       (timeSleep (overSleep tm (clock (snd (poll tm condition s)))) (WaitIntervalForCondition mc)
          (snd (poll tm condition s)))"

text \<open>
  The goroutine of \<^verbatim>\<open>ConfigBasedMetaController.Start\<close>, run to its end: either it returns
  and the deferred \<^verbatim>\<open>close(mc.doneCh)\<close> runs, or \<^verbatim>\<open>glog.Fatalf\<close> ends the process. \<open>None\<close> is
  a wait loop that never ends.
\<close>

datatype ('m, 's) outcome =
    Returned "('m, 's) state"
  | Fatal error "('m, 's) state"

definition ConfigBased_Start ::
  "timing \<Rightarrow> ('m, 's) nwc \<Rightarrow> ('m, 's) ConfigBasedMetaController \<Rightarrow> ('m, 's) state \<Rightarrow>
     ('m, 's) outcome option" where
  "ConfigBased_Start tm nwc mc s =
     (case wait tm mc (startAllWatchControllers nwc mc) s of
        None \<Rightarrow> None
      | Some (None, s1) \<Rightarrow> Some (Returned (s1\<lparr>trace := trace s1 @ [EvCloseDoneCh]\<rparr>))
      | Some (Some condErr, s1) \<Rightarrow> Some (Fatal condErr s1))"

fun stateOf :: "('m, 's) outcome \<Rightarrow> ('m, 's) state" where
  "stateOf (Returned s) = s"
| "stateOf (Fatal err s) = s"

section \<open>Which watch controllers run\<close>

text \<open>
  A watch controller runs from the return of its \<^verbatim>\<open>Start\<close> to the return of its \<^verbatim>\<open>Stop\<close>.
  \<open>running tr\<close> lists the watch controllers that run after the events \<open>tr\<close>, and
  \<open>onePerKey tr\<close> says that no two of them have definitions with the same key.
\<close>

definition wcKey :: "('m, 's) watchController \<Rightarrow> string" where
  "wcKey c = Key (GCtlConfig c)"

fun runningStep ::
  "('m, 's) watchController list \<Rightarrow> ('m, 's) event \<Rightarrow> ('m, 's) watchController list" where
  "runningStep rs (EvStart c n) = rs @ [c]"
| "runningStep rs (EvStop c) = removeAll c rs"
| "runningStep rs _ = rs"

definition running :: "('m, 's) event list \<Rightarrow> ('m, 's) watchController list" where
  "running tr = foldl runningStep [] tr"

definition onePerKey :: "('m, 's) event list \<Rightarrow> bool" where
  "onePerKey tr = distinct (map wcKey (running tr))"

text \<open>
  The invariant of both supervisors: the map has one entry per key, every entry is
  stored under the key of its own definition and was allocated earlier, the registered
  watch controllers are exactly the running ones, and at every earlier moment no two
  running watch controllers had the same key.
\<close>

definition consistent :: "('m, 's) state \<Rightarrow> bool" where
  "consistent s \<longleftrightarrow>
     distinct (map fst (WatchControllers s)) \<and>
     (\<forall>(k, c) \<in> set (WatchControllers s). wcKey c = k \<and> wcRef c < nwcCalls s) \<and>
     distinct (running (trace s)) \<and>
     set (running (trace s)) = snd ` set (WatchControllers s) \<and>
     (\<forall>p. prefix p (trace s) \<longrightarrow> onePerKey p)"

text \<open>Events that neither start nor stop a watch controller.\<close>

fun neutral :: "('m, 's) event \<Rightarrow> bool" where
  "neutral (EvStart c n) = False"
| "neutral (EvStop c) = False"
| "neutral _ = True"

text \<open>The events that happened between an earlier state and a later one.\<close>

definition since :: "('m, 's) state \<Rightarrow> ('m, 's) state \<Rightarrow> ('m, 's) event list" where
  "since s s' = drop (length (trace s)) (trace s')"

text \<open>
  An event that leaves the entries of the map \<open>al\<close> alone: it stops nothing, and it
  constructs or starts a watch controller only for a key that \<open>al\<close> does not have.
\<close>

fun untouched :: "(string \<times> ('m, 's) watchController) list \<Rightarrow> ('m, 's) event \<Rightarrow> bool" where
  "untouched al (EvStop c) = False"
| "untouched al (EvNew n conf) = (map_of al (Key conf) = None)"
| "untouched al (EvStart c n) = (map_of al (wcKey c) = None)"
| "untouched al _ = True"

text \<open>
  \<open>grows s s'\<close>: the later state \<open>s'\<close> has all entries of \<open>s\<close> as they were, the new
  entries behind them, every new entry running, and no event in between touched an entry
  of \<open>s\<close>.
\<close>

definition grows :: "('m, 's) state \<Rightarrow> ('m, 's) state \<Rightarrow> bool" where
  "grows s s' \<longleftrightarrow>
     prefix (WatchControllers s) (WatchControllers s') \<and>
     prefix (trace s) (trace s') \<and>
     list_all (untouched (WatchControllers s)) (since s s') \<and>
     running (trace s') =
       running (trace s) @ map snd (drop (length (WatchControllers s)) (WatchControllers s'))"

text \<open>
  What one pass of \<^verbatim>\<open>startAllWatchControllers\<close> may do: construct the first definition of
  the list that has the key, and start, with the configured worker count, a watch
  controller that holds the first definition of the list with its key.
\<close>

fun firstOfKey :: "('m, 's) GenericController list \<Rightarrow> int \<Rightarrow> ('m, 's) event \<Rightarrow> bool" where
  "firstOfKey confs workerCount (EvNew n conf) = (find (\<lambda>d. Key d = Key conf) confs = Some conf)"
| "firstOfKey confs workerCount (EvStart c n) =
     (find (\<lambda>d. Key d = wcKey c) confs = Some (GCtlConfig c) \<and> n = workerCount)"
| "firstOfKey confs workerCount _ = False"

text \<open>The definitions that \<^verbatim>\<open>newWatchController\<close> was called with, in the order of the calls.\<close>

fun attempted :: "('m, 's) event list \<Rightarrow> ('m, 's) GenericController list" where
  "attempted [] = []"
| "attempted (EvNew n conf # evs) = conf # attempted evs"
| "attempted (_ # evs) = attempted evs"

text \<open>
  What a pass of \<^verbatim>\<open>startAllWatchControllers\<close> has to do, in the words of the specification.
  \<open>spec_pending keys confs\<close> are the definitions to construct: those of \<open>confs\<close> whose key
  is not among \<open>keys\<close>, the first definition of each key only, in the order of the list;
  \<open>pending mc s\<close> are the ones of the supervisor \<open>mc\<close> in the state \<open>s\<close>. Constructed
  in turn from the call number \<open>n\<close> on, they give the map the entries \<open>spec_entries n confs\<close>,
  each under the key of its definition and holding exactly this definition, and the events
  \<open>spec_events workerCount n confs\<close>: every construction directly followed by the start of
  what was constructed.
\<close>

fun spec_pending ::
  "string list \<Rightarrow> ('m, 's) GenericController list \<Rightarrow> ('m, 's) GenericController list" where
  "spec_pending keys [] = []"
| "spec_pending keys (conf # confs) =
     (if Key conf \<in> set keys then spec_pending keys confs
      else conf # spec_pending (Key conf # keys) confs)"

definition pending ::
  "('m, 's) ConfigBasedMetaController \<Rightarrow> ('m, 's) state \<Rightarrow> ('m, 's) GenericController list" where
  "pending mc s = spec_pending (map fst (WatchControllers s)) (GenericControllerConfigs mc)"

fun spec_entries ::
  "nat \<Rightarrow> ('m, 's) GenericController list \<Rightarrow> (string \<times> ('m, 's) watchController) list" where
  "spec_entries n [] = []"
| "spec_entries n (conf # confs) =
     (Key conf, \<lparr>wcRef = n, GCtlConfig = conf\<rparr>) # spec_entries (Suc n) confs"

fun spec_events ::
  "int \<Rightarrow> nat \<Rightarrow> ('m, 's) GenericController list \<Rightarrow> ('m, 's) event list" where
  "spec_events workerCount n [] = []"
| "spec_events workerCount n (conf # confs) =
     EvNew n conf # EvStart \<lparr>wcRef = n, GCtlConfig = conf\<rparr> workerCount #
     spec_events workerCount (Suc n) confs"

section \<open>Stopping a supervisor: the channels, the queue and the goroutine\<close>


text \<open>
  The channels. A channel is closed when the trace has its \<^verbatim>\<open>close\<close>; a supervisor is
  started once. A call of \<^verbatim>\<open>Stop\<close> either returns, or is blocked in the receive from
  \<^verbatim>\<open>mc.doneCh\<close> because the channel is not closed, or panics.
\<close>

definition doneChClosed :: "('m, 's) state \<Rightarrow> bool" where
  "doneChClosed s \<longleftrightarrow> EvCloseDoneCh \<in> set (trace s)"

definition stopChClosed :: "('m, 's) state \<Rightarrow> bool" where
  "stopChClosed s \<longleftrightarrow> EvCloseStopCh \<in> set (trace s)"



text \<open>
  The work queue of client-go, as far as the supervisor uses it: the keys that wait, and
  whether \<^verbatim>\<open>ShutDown\<close> was called. \<^verbatim>\<open>Add\<close> ignores a key when the queue is shutting down or
  has the key already. \<^verbatim>\<open>Get\<close> returns the first key that waits; when none waits it
  returns the quit signal if the queue is shutting down, and blocks (\<open>None\<close>) otherwise.
\<close>

record workqueue =
  items :: "string list"
  shuttingDown :: bool




text \<open>
  The CRD based supervisor at run time: the state of its \<^verbatim>\<open>MetaController\<close>, its queue, and
  where the goroutine of \<^verbatim>\<open>Start\<close> is: not launched, in \<^verbatim>\<open>WaitForCacheSync\<close>, in the loop
  \<^verbatim>\<open>for mc.processNextWorkItem() {}\<close>, or returned.
\<close>

datatype phase = NotStarted | Syncing | Working | Gone

record ('m, 's) CRDBasedMetaController =
  MetaController :: "('m, 's) state"
  Queue :: workqueue
  goroutine :: phase












text \<open>
  A supervisor that was started and not stopped: the goroutine has not returned, no
  channel is closed, the queue is not shutting down, and the invariant holds.
\<close>

definition live :: "('m, 's) CRDBasedMetaController \<Rightarrow> bool" where
  "live c \<longleftrightarrow>
     (goroutine c = Syncing \<or> goroutine c = Working) \<and>
     \<not> stopChClosed (MetaController c) \<and> \<not> doneChClosed (MetaController c) \<and>
     \<not> shuttingDown (Queue c) \<and> consistent (MetaController c)"



text \<open>
  A supervisor that was started, stopped or not: the completion channel is closed exactly
  when the goroutine has returned, and the invariant holds.
\<close>

definition started :: "('m, 's) CRDBasedMetaController \<Rightarrow> bool" where
  "started c \<longleftrightarrow>
     goroutine c \<noteq> NotStarted \<and> (goroutine c = Gone \<longleftrightarrow> doneChClosed (MetaController c)) \<and>
     consistent (MetaController c)"





section \<open>Concrete inputs for the examples\<close>

text \<open>
  Definitions in the namespace \<^verbatim>\<open>ns\<close> with natural numbers for the metadata and the
  spec, a state with one running watch controller, the results of \<^verbatim>\<open>Queue.Get\<close> for a
  definition that is created, changed and deleted, a configuration with a duplicate
  key, and constructors that always succeed, fail once, and fail from the second call on.
\<close>

definition thing :: "string \<Rightarrow> nat \<Rightarrow> nat \<Rightarrow> (nat, nat) GenericController" where
  "thing name meta spec = \<lparr>Namespace = ''ns'', Name = name, Meta = meta, Spec = spec\<rparr>"

definition wcA :: "(nat, nat) watchController" where
  "wcA = \<lparr>wcRef = 0, GCtlConfig = thing ''a'' 0 1\<rparr>"

definition oneRunning :: "(nat, nat) state" where
  "oneRunning =
     \<lparr>WatchControllers = [(''ns/a'', wcA)],
      clock = 0,
      trace = [EvNew 0 (thing ''a'' 0 1), EvStart wcA 2],
      nwcCalls = 1\<rparr>"

definition exampleGets :: "(string \<times> bool \<times> (nat, nat) lister) list" where
  "exampleGets =
     [(''ns/a'', False, \<lambda>ns name. Inr (thing name 0 1)),
      (''ns/a'', False, \<lambda>ns name. Inr (thing name 0 2)),
      (''ns/a'', False, \<lambda>ns name. Inl (NotFound name))]"

definition exampleLoad :: "string \<Rightarrow> error + (nat, nat) GenericController list" where
  "exampleLoad path =
     (if path = ''/etc/metac'' then
        Inr [thing ''a'' 0 1, thing ''a'' 0 2, thing ''b'' 0 3, thing ''c'' 0 4]
      else Inl (External ''no such file''))"

definition exampleMC :: "(nat, nat) ConfigBasedMetaController" where
  "exampleMC =
     \<lparr>WorkerCount = 2, ConfigPath = ''/etc/metac'',
      GenericControllerAsConfigFn = Some (Inr []),
      GenericControllerConfigs = [thing ''a'' 0 1, thing ''a'' 0 2, thing ''b'' 0 3, thing ''c'' 0 4],
      WaitTimeoutForCondition = 1800000000000,
      WaitIntervalForCondition = 1000000000\<rparr>"

definition alwaysUp :: "(nat, nat) nwc" where
  "alwaysUp n conf = None"

definition downOnce :: "(nat, nat) nwc" where
  "downOnce n conf = (if n = 1 then Some (External ''discovery'') else None)"

definition staysDown :: "(nat, nat) nwc" where
  "staysDown n conf = (if 1 \<le> n then Some (External ''discovery'') else None)"

definition afterFailedPass :: "(nat, nat) state" where
  "afterFailedPass =
     \<lparr>WatchControllers = [(''ns/a'', wcA)], clock = 0,
      trace = [EvNew 0 (thing ''a'' 0 1), EvStart wcA 2, EvNew 1 (thing ''b'' 0 3)],
      nwcCalls = 2\<rparr>"

definition afterRetry :: "(nat, nat) state" where
  "afterRetry =
     \<lparr>WatchControllers =
        [(''ns/a'', wcA), (''ns/b'', \<lparr>wcRef = 2, GCtlConfig = thing ''b'' 0 3\<rparr>),
         (''ns/c'', \<lparr>wcRef = 3, GCtlConfig = thing ''c'' 0 4\<rparr>)],
      clock = 1,
      trace =
        [EvNew 0 (thing ''a'' 0 1), EvStart wcA 2, EvNew 1 (thing ''b'' 0 3),
         EvNew 2 (thing ''b'' 0 3), EvStart \<lparr>wcRef = 2, GCtlConfig = thing ''b'' 0 3\<rparr> 2,
         EvNew 3 (thing ''c'' 0 4), EvStart \<lparr>wcRef = 3, GCtlConfig = thing ''c'' 0 4\<rparr> 2],
      nwcCalls = 4\<rparr>"

text \<open>Events of loading the configuration, and states between which nothing is loaded.\<close>

fun loads :: "('m, 's) event \<Rightarrow> bool" where
  "loads (EvLoad path) = True"
| "loads EvListGenericControllers = True"
| "loads EvConfigFn = True"
| "loads _ = False"

definition noLoads :: "('m, 's) state \<Rightarrow> ('m, 's) state \<Rightarrow> bool" where
  "noLoads s s' \<longleftrightarrow> prefix (trace s) (trace s') \<and> list_all (\<lambda>e. \<not> loads e) (since s s')"

text \<open>
  A course of time in which every call of the condition takes one nanosecond and every
  sleep lasts as long as asked, and one with slower calls and sleeps that overrun.
\<close>

definition onTime :: timing where
  "onTime = \<lparr>pollTime = (\<lambda>t. 0), overSleep = (\<lambda>t. 0)\<rparr>"

definition slowTime :: timing where
  "slowTime = \<lparr>pollTime = (\<lambda>t. 1999), overSleep = (\<lambda>t. 50)\<rparr>"

text \<open>
  A constructor that always fails, and a supervisor whose timeout is the largest duration.
\<close>

definition neverUp :: "(nat, nat) nwc" where
  "neverUp n conf = Some (External ''discovery'')"

definition foreverMC :: "(nat, nat) ConfigBasedMetaController" where
  "foreverMC = exampleMC\<lparr>WaitTimeoutForCondition := 9223372036854775807\<rparr>"

text \<open>More concrete states: after a start without failure, and after a timeout of 3 seconds.\<close>

definition afterStart :: "(nat, nat) state" where
  "afterStart =
     \<lparr>WatchControllers =
        [(''ns/a'', wcA), (''ns/b'', \<lparr>wcRef = 1, GCtlConfig = thing ''b'' 0 3\<rparr>),
         (''ns/c'', \<lparr>wcRef = 2, GCtlConfig = thing ''c'' 0 4\<rparr>)],
      clock = 1,
      trace =
        [EvLoad ''/etc/metac'', EvListGenericControllers,
         EvNew 0 (thing ''a'' 0 1), EvStart wcA 2,
         EvNew 1 (thing ''b'' 0 3), EvStart \<lparr>wcRef = 1, GCtlConfig = thing ''b'' 0 3\<rparr> 2,
         EvNew 2 (thing ''c'' 0 4), EvStart \<lparr>wcRef = 2, GCtlConfig = thing ''c'' 0 4\<rparr> 2,
         EvCloseDoneCh],
      nwcCalls = 3\<rparr>"

definition shortTimeoutMC :: "(nat, nat) ConfigBasedMetaController" where
  "shortTimeoutMC = exampleMC\<lparr>WaitTimeoutForCondition := 3 * Second\<rparr>"

definition afterTimeout :: "(nat, nat) state" where
  "afterTimeout =
     \<lparr>WatchControllers = [(''ns/a'', wcA)], clock = 3000000004,
      trace =
        [EvNew 0 (thing ''a'' 0 1), EvStart wcA 2, EvNew 1 (thing ''b'' 0 3), EvSleep 1000000000,
         EvNew 2 (thing ''b'' 0 3), EvSleep 1000000000, EvNew 3 (thing ''b'' 0 3), EvSleep 1000000000,
         EvNew 4 (thing ''b'' 0 3)],
      nwcCalls = 5\<rparr>"








section \<open>Lemmas on the invariant\<close>

lemma running_snoc: "running (tr @ [e]) = runningStep (running tr) e"
  by (simp add: running_def)

lemma update_absent: "k \<notin> fst ` set al \<Longrightarrow> AList.update k v al = al @ [(k, v)]"
  by (induction al) auto

lemma prefix_snoc_all:
  "(\<forall>p. prefix p (tr @ [e]) \<longrightarrow> P p) \<longleftrightarrow> (\<forall>p. prefix p tr \<longrightarrow> P p) \<and> P (tr @ [e])"
  by auto

lemma onePerKey_registered: 
  assumes "distinct (map fst al)" "\<forall>(k, c) \<in> set al. wcKey c = k \<and> Q k c" "distinct rs" "set rs = snd ` set al"
  shows "distinct (map wcKey rs)"
proof -
  have "inj_on wcKey (set rs)"
  proof (rule inj_onI)
    fix c d assume cd: "c \<in> set rs" "d \<in> set rs" "wcKey c = wcKey d"
    then obtain k k' where kk: "(k, c) \<in> set al" "(k', d) \<in> set al" using assms(4) by auto
    with assms(2) have "wcKey c = k" "wcKey d = k'" by auto
    with cd have "k = k'" by simp
    with assms(1) kk show "c = d"
      by (metis eq_key_imp_eq_value)
  qed
  with assms(3) show ?thesis by (simp add: distinct_map)
qed

lemma consistent_newWatchController:
  assumes "consistent s"
  shows "consistent (snd (newWatchController nwc conf s))"
proof -
  have "\<And>k c. (k, c) \<in> set (WatchControllers s) \<Longrightarrow> wcRef c < Suc (nwcCalls s)"
    using assms by (fastforce simp: consistent_def intro: less_SucI)
  with assms show ?thesis
  by (auto simp: consistent_def newWatchController_def Let_def prefix_snoc_all running_snoc onePerKey_def
      split: option.splits)
qed

lemma consistent_stop_delete:
  assumes "consistent s" "map_of (WatchControllers s) k = Some c"
  shows "consistent ((wcStop c s)\<lparr>WatchControllers := AList.delete k (WatchControllers s)\<rparr>)"
proof -
  let ?al = "WatchControllers s" and ?rs = "running (trace s)"
  from assms(1) have d: "distinct (map fst ?al)"
    and kc: "\<forall>(k, c) \<in> set ?al. wcKey c = k \<and> wcRef c < nwcCalls s"
    and dr: "distinct ?rs" and sr: "set ?rs = snd ` set ?al"
    and al: "\<forall>p. prefix p (trace s) \<longrightarrow> onePerKey p"
    by (auto simp: consistent_def)
  from assms(2) have mem: "(k, c) \<in> set ?al" by (rule map_of_SomeD)
  have vals: "snd ` set (AList.delete k ?al) = snd ` set ?al - {c}"
  proof (intro equalityI subsetI)
    fix x assume "x \<in> snd ` set (AList.delete k ?al)"
    then obtain k' where k': "(k', x) \<in> set ?al" "k' \<noteq> k" by (auto simp: AList.delete_eq)
    with kc mem have "wcKey x = k'" "wcKey c = k" by auto
    with k' show "x \<in> snd ` set ?al - {c}" by force
  next
    fix x assume "x \<in> snd ` set ?al - {c}"
    then obtain k' where k': "(k', x) \<in> set ?al" "x \<noteq> c" by auto
    with d mem have "k' \<noteq> k" by (metis eq_key_imp_eq_value)
    with k' show "x \<in> snd ` set (AList.delete k ?al)" by (force simp: AList.delete_eq)
  qed
  have 1: "distinct (map fst (AList.delete k ?al))" using d by (rule distinct_delete)
  have 2: "\<forall>(k', c') \<in> set (AList.delete k ?al). wcKey c' = k' \<and> wcRef c' < nwcCalls s"
    using kc by (auto simp: AList.delete_eq)
  have 3: "distinct (removeAll c ?rs)" using dr by (simp add: distinct_removeAll)
  have 4: "set (removeAll c ?rs) = snd ` set (AList.delete k ?al)" using sr vals by simp
  have 5: "onePerKey (trace s @ [EvStop c])"
    unfolding onePerKey_def running_snoc runningStep.simps
    using onePerKey_registered [OF 1 2 3 4] .
  show ?thesis
    using 1 2 3 4 5 al
    by (simp add: consistent_def wcStop_def running_snoc prefix_snoc_all)
qed

lemma consistent_start_update:
  assumes "consistent s" "map_of (WatchControllers s) (wcKey wc) = None" "wcRef wc < nwcCalls s"
    "\<forall>(k, c) \<in> set (WatchControllers s). wcRef c \<noteq> wcRef wc"
  shows "consistent ((wcStart wc n s)\<lparr>WatchControllers := AList.update (wcKey wc) wc (WatchControllers s)\<rparr>)"
proof -
  let ?al = "WatchControllers s" and ?rs = "running (trace s)"
  from assms(1) have d: "distinct (map fst ?al)"
    and kc: "\<forall>(k, c) \<in> set ?al. wcKey c = k \<and> wcRef c < nwcCalls s"
    and dr: "distinct ?rs" and sr: "set ?rs = snd ` set ?al"
    and al: "\<forall>p. prefix p (trace s) \<longrightarrow> onePerKey p"
    by (auto simp: consistent_def)
  from assms(2) have absent: "wcKey wc \<notin> fst ` set ?al" by (simp add: map_of_eq_None_iff)
  then have upd: "AList.update (wcKey wc) wc ?al = ?al @ [(wcKey wc, wc)]" by (rule update_absent)
  have notin: "wc \<notin> set ?rs" using assms(4) sr by force
  have 1: "distinct (map fst (?al @ [(wcKey wc, wc)]))" using d absent by simp
  have 2: "\<forall>(k', c') \<in> set (?al @ [(wcKey wc, wc)]). wcKey c' = k' \<and> wcRef c' < nwcCalls s"
    using kc assms(3) by auto
  have 3: "distinct (?rs @ [wc])" using dr notin by simp
  have 4: "set (?rs @ [wc]) = snd ` set (?al @ [(wcKey wc, wc)])" using sr by auto
  have 5: "onePerKey (trace s @ [EvStart wc n])"
    unfolding onePerKey_def running_snoc runningStep.simps
    using onePerKey_registered [OF 1 2 3 4] .
  show ?thesis
    using 1 2 3 4 5 al
    by (simp add: consistent_def wcStart_def running_snoc prefix_snoc_all upd)
qed


lemma consistent_neutral1:
  assumes "consistent s" "neutral e"
  shows "consistent (s\<lparr>trace := trace s @ [e]\<rparr>)"
proof -
  from assms(2) have r: "running (trace s @ [e]) = running (trace s)"
    unfolding running_snoc by (cases e) auto
  show ?thesis
    using assms(1) unfolding consistent_def prefix_snoc_all
    by (simp add: r onePerKey_def)
qed

lemma consistent_neutral:
  assumes "consistent s" "\<forall>e \<in> set evs. neutral e"
  shows "consistent (s\<lparr>trace := trace s @ evs\<rparr>)"
  using assms(2)
proof (induction evs rule: rev_induct)
  case Nil
  with assms(1) show ?case by simp
next
  case (snoc e evs)
  then have c: "consistent (s\<lparr>trace := trace s @ evs\<rparr>)" and n: "neutral e" by auto
  from consistent_neutral1 [OF c n] show ?case by simp
qed

lemma consistent_create:
  assumes "consistent s" "map_of (WatchControllers s) (Key conf) = None"
    "newWatchController nwc conf s = (Inr wc, s1)"
  shows "consistent ((wcStart wc n s1)\<lparr>WatchControllers := AList.update (Key conf) wc (WatchControllers s1)\<rparr>)"
proof -
  from assms(3) have wc: "wc = \<lparr>wcRef = nwcCalls s, GCtlConfig = conf\<rparr>"
    and s1: "s1 = s\<lparr>trace := trace s @ [EvNew (nwcCalls s) conf], nwcCalls := Suc (nwcCalls s)\<rparr>"
    by (auto simp: newWatchController_def Let_def split: option.splits)
  have k: "wcKey wc = Key conf" by (simp add: wc wcKey_def)
  from consistent_newWatchController [OF assms(1), of nwc conf] assms(3)
  have c1: "consistent s1" by simp
  have m: "map_of (WatchControllers s1) (wcKey wc) = None" using assms(2) by (simp add: s1 k)
  have r: "wcRef wc < nwcCalls s1" by (simp add: wc s1)
  have f: "\<forall>(k, c) \<in> set (WatchControllers s1). wcRef c \<noteq> wcRef wc"
    using assms(1) by (auto simp: consistent_def s1 wc)
  from consistent_start_update [OF c1 m r f, of n] show ?thesis by (simp add: k)
qed

lemma consistent_create_failed:
  assumes "consistent s" "newWatchController nwc conf s = (r, s1)"
  shows "consistent s1"
  using consistent_newWatchController [OF assms(1), of nwc conf] assms(2) by simp

lemma map_of_delete_same: "map_of (AList.delete k al) k = None"
  by (simp add: delete_conv')

lemma consistent_syncGenericController:
  assumes "consistent s"
  shows "consistent (snd (syncGenericController nwc deq n ctrl s))"
proof (cases "map_of (WatchControllers s) (Key ctrl)")
  case None
  show ?thesis
  proof (cases "newWatchController nwc ctrl s")
    case (Pair r s1)
    then show ?thesis
      using None consistent_create [OF assms None, of nwc _ s1 n] consistent_create_failed [OF assms Pair]
      by (cases r) (auto simp: syncGenericController_def)
  qed
next
  case (Some c)
  show ?thesis
  proof (cases "deq (Spec ctrl) (Spec (GCtlConfig c))")
    case True
    with Some assms show ?thesis by (simp add: syncGenericController_def)
  next
    case False
    let ?s' = "(wcStop c s)\<lparr>WatchControllers := AList.delete (Key ctrl) (WatchControllers s)\<rparr>"
    have c': "consistent ?s'" using assms Some by (rule consistent_stop_delete)
    have m': "map_of (WatchControllers ?s') (Key ctrl) = None" by (simp add: map_of_delete_same)
    show ?thesis
    proof (cases "newWatchController nwc ctrl ?s'")
      case (Pair r s1)
      then show ?thesis
        using Some False consistent_create [OF c' m', of nwc _ s1 n] consistent_create_failed [OF c' Pair]
        by (cases r) (auto simp: syncGenericController_def)
    qed
  qed
qed

lemma consistent_sync:
  assumes "consistent s"
  shows "consistent (snd (sync nwc deq n lister key s))"
  using assms consistent_syncGenericController [OF assms] consistent_stop_delete [OF assms]
  by (auto simp: sync_def split: sum.splits option.splits prod.splits)

lemma consistent_processNextWorkItem:
  assumes "consistent s"
  shows "consistent (snd (processNextWorkItem nwc deq n lister item s))"
proof (cases item)
  case (Pair key quit)
  obtain r s1 where r: "sync nwc deq n lister key s = (r, s1)" by (cases "sync nwc deq n lister key s")
  with consistent_sync [OF assms, of nwc deq n lister key] have c1: "consistent s1" by simp
  show ?thesis
    using assms r Pair consistent_neutral [OF c1]
    by (cases r) (auto simp: processNextWorkItem_def)
qed

lemma consistent_worker:
  "consistent s \<Longrightarrow> consistent (worker nwc deq n gets s)"
proof (induction gets arbitrary: s)
  case Nil
  then show ?case by simp
next
  case (Cons g gets)
  obtain key quit lister where g: "g = (key, quit, lister)" by (cases g)
  obtain go s1 where p: "processNextWorkItem nwc deq n lister (key, quit) s = (go, s1)"
    by (cases "processNextWorkItem nwc deq n lister (key, quit) s")
  with consistent_processNextWorkItem [OF Cons.prems, of nwc deq n lister "(key, quit)"]
  have "consistent s1" by simp
  with Cons.IH [of s1] p g show ?case by (cases go) auto
qed

lemma consistent_initial:
  "\<forall>e \<in> set evs. neutral e \<Longrightarrow> consistent (initial now evs)"
proof -
  assume a: "\<forall>e \<in> set evs. neutral e"
  have "consistent (initial now [])"
    by (simp add: consistent_def initial_def running_def onePerKey_def)
  from consistent_neutral [OF this, of evs] a show ?thesis by (simp add: initial_def)
qed

lemma consistent_startAllLoop:
  "consistent s \<Longrightarrow> consistent (snd (startAllLoop nwc mc confs s))"
proof (induction confs arbitrary: s)
  case Nil
  then show ?case by simp
next
  case (Cons conf confs)
  show ?case
  proof (cases "map_of (WatchControllers s) (Key conf)")
    case (Some c)
    with Cons show ?thesis by simp
  next
    case None
    obtain r s1 where n: "newWatchController nwc conf s = (r, s1)"
      by (cases "newWatchController nwc conf s")
    show ?thesis
    proof (cases r)
      case (Inl err)
      with None n consistent_create_failed [OF Cons.prems n] show ?thesis by simp
    next
      case (Inr wc)
      with n consistent_create [OF Cons.prems None, of nwc wc s1 "WorkerCount mc"]
      have "consistent ((wcStart wc (WorkerCount mc) s1)
              \<lparr>WatchControllers := AList.update (Key conf) wc (WatchControllers s1)\<rparr>)" by simp
      from Cons.IH [OF this] None n Inr show ?thesis by simp
    qed
  qed
qed

lemma consistent_timeSleep: "consistent s \<Longrightarrow> consistent (timeSleep late d s)"
  using consistent_neutral1 [of s "EvSleep d"] by (simp add: timeSleep_def consistent_def)

lemma consistent_clock: "consistent (s\<lparr>clock := c\<rparr>) = consistent s"
  by (simp add: consistent_def)

lemma since_self: "since s s = []"
  by (simp add: since_def)

lemma grows_refl: "grows s s"
  by (simp add: grows_def since_def)

lemma since_append: "trace s' = trace s @ evs \<Longrightarrow> since s s' = evs"
  by (simp add: since_def)

lemma prefix_trace_since: "prefix (trace s) (trace s') \<Longrightarrow> trace s' = trace s @ since s s'"
  by (auto simp: since_def prefix_def)

lemma since_trans:
  assumes "prefix (trace s) (trace s1)" "prefix (trace s1) (trace s2)"
  shows "since s s2 = since s s1 @ since s1 s2"
proof -
  from assms obtain a b where "trace s1 = trace s @ a" "trace s2 = trace s1 @ b"
    by (auto simp: prefix_def)
  then show ?thesis by (simp add: since_def)
qed

lemma untouched_mono:
  assumes "prefix al al'" "untouched al' e"
  shows "untouched al e"
proof -
  from assms(1) obtain r where r: "al' = al @ r" by (auto simp: prefix_def)
  have "\<And>k. map_of al' k = None \<Longrightarrow> map_of al k = None"
    by (auto simp: r map_of_eq_None_iff)
  with assms(2) show ?thesis by (cases e) auto
qed

lemma grows_trans:
  assumes "grows s s1" "grows s1 s2"
  shows "grows s s2"
proof -
  from assms(1) obtain a where a: "WatchControllers s1 = WatchControllers s @ a"
    by (auto simp: grows_def prefix_def)
  from assms(2) obtain b where b: "WatchControllers s2 = WatchControllers s1 @ b"
    by (auto simp: grows_def prefix_def)
  have p1: "prefix (trace s) (trace s1)" and p2: "prefix (trace s1) (trace s2)"
    using assms by (auto simp: grows_def)
  have u: "list_all (untouched (WatchControllers s)) (since s1 s2)"
  proof -
    have "prefix (WatchControllers s) (WatchControllers s1)" using assms(1) by (simp add: grows_def)
    from untouched_mono [OF this] assms(2) show ?thesis
      by (auto simp: grows_def list_all_iff)
  qed
  show ?thesis
    using assms(1,2) u p1 p2 since_trans [OF p1 p2]
    by (auto simp: grows_def a b)
qed


lemma grows_newWatchController:
  assumes "map_of (WatchControllers s) (Key conf) = None"
  shows "grows s (snd (newWatchController nwc conf s))"
  using assms
  by (auto simp: grows_def newWatchController_def Let_def since_def running_snoc split: option.splits)

lemma grows_create:
  assumes "map_of (WatchControllers s) (Key conf) = None"
    "newWatchController nwc conf s = (Inr wc, s1)"
  shows "grows s ((wcStart wc n s1)\<lparr>WatchControllers := AList.update (Key conf) wc (WatchControllers s1)\<rparr>)"
proof -
  from assms(2) have wc: "wc = \<lparr>wcRef = nwcCalls s, GCtlConfig = conf\<rparr>"
    and s1: "s1 = s\<lparr>trace := trace s @ [EvNew (nwcCalls s) conf], nwcCalls := Suc (nwcCalls s)\<rparr>"
    by (auto simp: newWatchController_def Let_def split: option.splits)
  from assms(1) have "Key conf \<notin> fst ` set (WatchControllers s)" by (simp add: map_of_eq_None_iff)
  then have upd: "AList.update (Key conf) wc (WatchControllers s) = WatchControllers s @ [(Key conf, wc)]"
    by (rule update_absent)
  have k: "wcKey wc = Key conf" by (simp add: wc wcKey_def)
  have r: "running (trace s @ [EvNew (nwcCalls s) conf, EvStart wc n]) = running (trace s) @ [wc]"
    by (simp add: running_def)
  show ?thesis
    using assms(1) by (simp add: grows_def s1 wcStart_def upd since_def r k)
qed

lemma grows_startAllLoop:
  "grows s (snd (startAllLoop nwc mc confs s))"
proof (induction confs arbitrary: s)
  case Nil
  show ?case by (simp add: grows_refl)
next
  case (Cons conf confs)
  show ?case
  proof (cases "map_of (WatchControllers s) (Key conf)")
    case (Some c)
    with Cons show ?thesis by simp
  next
    case None
    obtain r s1 where n: "newWatchController nwc conf s = (r, s1)"
      by (cases "newWatchController nwc conf s")
    show ?thesis
    proof (cases r)
      case (Inl err)
      with None n grows_newWatchController [OF None, of nwc] show ?thesis by simp
    next
      case (Inr wc)
      let ?s2 = "(wcStart wc (WorkerCount mc) s1)
              \<lparr>WatchControllers := AList.update (Key conf) wc (WatchControllers s1)\<rparr>"
      from n Inr grows_create [OF None, of nwc wc s1 "WorkerCount mc"]
      have "grows s ?s2" by simp
      from grows_trans [OF this Cons.IH [of ?s2]] None n Inr show ?thesis by simp
    qed
  qed
qed

lemma grows_timeSleep: "grows s (timeSleep late d s)"
  by (simp add: grows_def timeSleep_def since_def running_snoc)

lemma grows_clock: "grows s (s'\<lparr>clock := c\<rparr>) = grows s s'"
  by (simp add: grows_def since_def)

lemma grows_keys: "grows s s' \<Longrightarrow> fst ` set (WatchControllers s) \<subseteq> fst ` set (WatchControllers s')"
  by (auto simp: grows_def prefix_def)

lemma startAllLoop_result:
  "fst (startAllLoop nwc mc confs s) = (True, None) \<or>
   (\<exists>conf err. conf \<in> set confs \<and>
      fst (startAllLoop nwc mc confs s) =
        (False, Some (Wrapped (''Failed to sync key '' @ Key conf) err)))"
proof (induction confs arbitrary: s)
  case Nil
  show ?case by simp
next
  case (Cons conf confs)
  show ?case
  proof (cases "map_of (WatchControllers s) (Key conf)")
    case (Some c)
    with Cons [of s] show ?thesis by auto
  next
    case None
    obtain r s1 where n: "newWatchController nwc conf s = (r, s1)"
      by (cases "newWatchController nwc conf s")
    show ?thesis
    proof (cases r)
      case (Inl err)
      with None n show ?thesis by auto
    next
      case (Inr wc)
      with None n Cons [of "(wcStart wc (WorkerCount mc) s1)
              \<lparr>WatchControllers := AList.update (Key conf) wc (WatchControllers s1)\<rparr>"]
      show ?thesis by auto
    qed
  qed
qed

lemma startAllLoop_success_iff:
  "fst (startAllLoop nwc mc confs s) = (True, None) \<longleftrightarrow>
   (\<forall>conf \<in> set confs. Key conf \<in> fst ` set (WatchControllers (snd (startAllLoop nwc mc confs s))))"
proof (induction confs arbitrary: s)
  case Nil
  show ?case by simp
next
  case (Cons conf confs)
  show ?case
  proof (cases "map_of (WatchControllers s) (Key conf)")
    case (Some c)
    then have "Key conf \<in> fst ` set (WatchControllers s)"
      by (metis map_of_eq_None_iff option.distinct(1))
    with grows_keys [OF grows_startAllLoop, of s nwc mc confs]
    have "Key conf \<in> fst ` set (WatchControllers (snd (startAllLoop nwc mc confs s)))" by auto
    with Some Cons [of s] show ?thesis by simp
  next
    case None
    obtain r s1 where n: "newWatchController nwc conf s = (r, s1)"
      by (cases "newWatchController nwc conf s")
    show ?thesis
    proof (cases r)
      case (Inl err)
      from n have "WatchControllers s1 = WatchControllers s"
        by (auto simp: newWatchController_def Let_def split: option.splits)
      with None have "Key conf \<notin> fst ` set (WatchControllers s1)" by (simp add: map_of_eq_None_iff)
      with None n Inl show ?thesis by simp
    next
      case (Inr wc)
      let ?s2 = "(wcStart wc (WorkerCount mc) s1)
              \<lparr>WatchControllers := AList.update (Key conf) wc (WatchControllers s1)\<rparr>"
      have "Key conf \<in> fst ` set (WatchControllers ?s2)" by (simp add: dom_update)
      with grows_keys [OF grows_startAllLoop, of ?s2 nwc mc confs]
      have "Key conf \<in> fst ` set (WatchControllers (snd (startAllLoop nwc mc confs ?s2)))" by auto
      with None n Inr Cons [of ?s2] show ?thesis by simp
    qed
  qed
qed

lemma startAllLoop_append:
  "startAllLoop nwc mc (xs @ ys) s =
     (if fst (startAllLoop nwc mc xs s) = (True, None)
      then startAllLoop nwc mc ys (snd (startAllLoop nwc mc xs s))
      else startAllLoop nwc mc xs s)"
proof (induction xs arbitrary: s)
  case Nil
  show ?case by simp
next
  case (Cons conf xs)
  show ?case
    by (auto simp: Cons split: option.splits sum.splits prod.splits)
qed

lemma startAllLoop_failure:
  "fst (startAllLoop nwc mc confs s) \<noteq> (True, None) \<Longrightarrow>
   \<exists>pre conf rest s1 err.
     confs = pre @ conf # rest \<and>
     startAllLoop nwc mc pre s = ((True, None), s1) \<and>
     map_of (WatchControllers s1) (Key conf) = None \<and>
     nwc (nwcCalls s1) conf = Some err \<and>
     startAllLoop nwc mc confs s =
       ((False, Some (Wrapped (''Failed to sync key '' @ Key conf) err)),
        s1\<lparr>trace := trace s1 @ [EvNew (nwcCalls s1) conf], nwcCalls := Suc (nwcCalls s1)\<rparr>)"
proof (induction confs arbitrary: s)
  case Nil
  then show ?case by simp
next
  case (Cons conf confs)
  show ?case
  proof (cases "map_of (WatchControllers s) (Key conf)")
    case (Some c)
    with Cons.prems have "fst (startAllLoop nwc mc confs s) \<noteq> (True, None)" by simp
    from Cons.IH [OF this] obtain pre conf' rest s1 err where
      h: "confs = pre @ conf' # rest" "startAllLoop nwc mc pre s = ((True, None), s1)"
        "map_of (WatchControllers s1) (Key conf') = None" "nwc (nwcCalls s1) conf' = Some err"
        "startAllLoop nwc mc confs s =
          ((False, Some (Wrapped (''Failed to sync key '' @ Key conf') err)),
           s1\<lparr>trace := trace s1 @ [EvNew (nwcCalls s1) conf'], nwcCalls := Suc (nwcCalls s1)\<rparr>)"
      by blast
    have "conf # confs = (conf # pre) @ conf' # rest" using h(1) by simp
    moreover have "startAllLoop nwc mc (conf # pre) s = ((True, None), s1)" using Some h(2) by simp
    moreover have "startAllLoop nwc mc (conf # confs) s =
          ((False, Some (Wrapped (''Failed to sync key '' @ Key conf') err)),
           s1\<lparr>trace := trace s1 @ [EvNew (nwcCalls s1) conf'], nwcCalls := Suc (nwcCalls s1)\<rparr>)"
      using Some h(5) by simp
    ultimately show ?thesis using h(3,4) by blast
  next
    case None
    show ?thesis
    proof (cases "nwc (nwcCalls s) conf")
      case (Some err)
      have "conf # confs = [] @ conf # confs" by simp
      moreover have "startAllLoop nwc mc [] s = ((True, None), s)" by simp
      moreover have "startAllLoop nwc mc (conf # confs) s =
          ((False, Some (Wrapped (''Failed to sync key '' @ Key conf) err)),
           s\<lparr>trace := trace s @ [EvNew (nwcCalls s) conf], nwcCalls := Suc (nwcCalls s)\<rparr>)"
        using None Some by (simp add: newWatchController_def Let_def)
      ultimately show ?thesis using None Some by blast
    next
      case nwcNone: None
      let ?wc = "\<lparr>wcRef = nwcCalls s, GCtlConfig = conf\<rparr>"
      let ?s1 = "s\<lparr>trace := trace s @ [EvNew (nwcCalls s) conf], nwcCalls := Suc (nwcCalls s)\<rparr>"
      let ?s2 = "(wcStart ?wc (WorkerCount mc) ?s1)
              \<lparr>WatchControllers := AList.update (Key conf) ?wc (WatchControllers ?s1)\<rparr>"
      have step: "\<And>cs. startAllLoop nwc mc (conf # cs) s = startAllLoop nwc mc cs ?s2"
        using None nwcNone by (simp add: newWatchController_def Let_def)
      with Cons.prems have "fst (startAllLoop nwc mc confs ?s2) \<noteq> (True, None)" by simp
      from Cons.IH [OF this] obtain pre conf' rest s1 err where
        h: "confs = pre @ conf' # rest" "startAllLoop nwc mc pre ?s2 = ((True, None), s1)"
          "map_of (WatchControllers s1) (Key conf') = None" "nwc (nwcCalls s1) conf' = Some err"
          "startAllLoop nwc mc confs ?s2 =
            ((False, Some (Wrapped (''Failed to sync key '' @ Key conf') err)),
             s1\<lparr>trace := trace s1 @ [EvNew (nwcCalls s1) conf'], nwcCalls := Suc (nwcCalls s1)\<rparr>)"
        by blast
      have "conf # confs = (conf # pre) @ conf' # rest" using h(1) by simp
      moreover have "startAllLoop nwc mc (conf # pre) s = ((True, None), s1)"
        using h(2) by (simp only: step)
      moreover have "startAllLoop nwc mc (conf # confs) s =
            ((False, Some (Wrapped (''Failed to sync key '' @ Key conf') err)),
             s1\<lparr>trace := trace s1 @ [EvNew (nwcCalls s1) conf'], nwcCalls := Suc (nwcCalls s1)\<rparr>)"
        using h(5) by (simp only: step)
      ultimately show ?thesis using h(3,4) by blast
    qed
  qed
qed

lemma firstOfKey_Cons:
  assumes "firstOfKey confs n e" "untouched al e" "map_of al (Key conf) \<noteq> None"
  shows "firstOfKey (conf # confs) n e"
  using assms by (cases e) auto

lemma startAllLoop_firstOfKey:
  "list_all (firstOfKey confs (WorkerCount mc)) (since s (snd (startAllLoop nwc mc confs s)))"
proof (induction confs arbitrary: s)
  case Nil
  show ?case by (simp add: since_def)
next
  case (Cons conf confs)
  show ?case
  proof (cases "map_of (WatchControllers s) (Key conf)")
    case (Some c)
    have g: "grows s (snd (startAllLoop nwc mc confs s))" by (rule grows_startAllLoop)
    have "firstOfKey (conf # confs) (WorkerCount mc) e"
      if "e \<in> set (since s (snd (startAllLoop nwc mc confs s)))" for e
    proof (rule firstOfKey_Cons)
      show "firstOfKey confs (WorkerCount mc) e" using Cons [of s] that by (simp add: list_all_iff)
      show "untouched (WatchControllers s) e" using g that by (simp add: grows_def list_all_iff)
      show "map_of (WatchControllers s) (Key conf) \<noteq> None" using Some by simp
    qed
    with Some show ?thesis by (simp add: list_all_iff)
  next
    case None
    show ?thesis
    proof (cases "nwc (nwcCalls s) conf")
      case (Some err)
      with None show ?thesis by (simp add: newWatchController_def Let_def since_def)
    next
      case nwcNone: None
      let ?wc = "\<lparr>wcRef = nwcCalls s, GCtlConfig = conf\<rparr>"
      let ?s1 = "s\<lparr>trace := trace s @ [EvNew (nwcCalls s) conf], nwcCalls := Suc (nwcCalls s)\<rparr>"
      let ?s2 = "(wcStart ?wc (WorkerCount mc) ?s1)
              \<lparr>WatchControllers := AList.update (Key conf) ?wc (WatchControllers ?s1)\<rparr>"
      let ?r = "snd (startAllLoop nwc mc confs ?s2)"
      have step: "startAllLoop nwc mc (conf # confs) s = startAllLoop nwc mc confs ?s2"
        using None nwcNone by (simp add: newWatchController_def Let_def)
      have g: "grows ?s2 ?r" by (rule grows_startAllLoop)
      have p1: "prefix (trace s) (trace ?s2)" by (simp add: wcStart_def)
      have p2: "prefix (trace ?s2) (trace ?r)" using g by (simp add: grows_def)
      have s12: "since s ?s2 = [EvNew (nwcCalls s) conf, EvStart ?wc (WorkerCount mc)]"
        by (simp add: since_def wcStart_def)
      have "firstOfKey (conf # confs) (WorkerCount mc) e" if "e \<in> set (since ?s2 ?r)" for e
      proof (rule firstOfKey_Cons)
        show "firstOfKey confs (WorkerCount mc) e" using Cons [of ?s2] that by (simp add: list_all_iff)
        show "untouched (WatchControllers ?s2) e" using g that by (simp add: grows_def list_all_iff)
        show "map_of (WatchControllers ?s2) (Key conf) \<noteq> None" by (simp add: update_conv')
      qed
      then have "list_all (firstOfKey (conf # confs) (WorkerCount mc)) (since ?s2 ?r)"
        by (simp add: list_all_iff)
      then show ?thesis
        unfolding step since_trans [OF p1 p2] s12 by (simp add: wcKey_def)
    qed
  qed
qed

section \<open>Lemmas on the wait loop\<close>

lemma poll_eq:
  "poll tm condition s =
     (fst (condition s),
      (snd (condition s))\<lparr>clock := clock s + 1 + int (pollTime tm (clock s))\<rparr>)"
  by (simp add: poll_def split: prod.splits)

lemma clock_poll:
  "clock (snd (poll tm condition s)) = clock s + 1 + int (pollTime tm (clock s))"
  by (simp add: poll_eq)

lemma waitLoop_done:
  assumes "poll tm condition s = ((True, None), s1)"
  shows "waitLoop tm mc start condition s = Some (None, s1)"
  using assms by (subst waitLoop.simps) simp

lemma waitLoop_timeout:
  assumes "poll tm condition s = ((done, err), s1)" "\<not> (err = None \<and> done)"
    "WaitTimeoutForCondition mc < timeSince start s1"
  shows "waitLoop tm mc start condition s =
           Some (Some (WaitTimedOut (WaitTimeoutForCondition mc) err), s1)"
  using assms by (subst waitLoop.simps) auto

lemma waitLoop_retry:
  assumes "poll tm condition s = ((done, err), s1)" "\<not> (err = None \<and> done)"
    "timeSince start s1 \<le> WaitTimeoutForCondition mc"
  shows "waitLoop tm mc start condition s =
           waitLoop tm mc start condition
             (timeSleep (overSleep tm (clock s1)) (WaitIntervalForCondition mc) s1)"
  using assms by (subst waitLoop.simps) auto

lemma waitLoop_returns:
  assumes bound: "WaitTimeoutForCondition mc < maxDuration"
  shows "\<exists>r. waitLoop tm mc start condition s = Some r"
proof (induction "nat (start + WaitTimeoutForCondition mc + 1 - clock s)" arbitrary: s rule: less_induct)
  case less
  obtain d err s1 where c: "poll tm condition s = ((d, err), s1)"
    by (metis surj_pair)
  from clock_poll [of tm condition s] c have m: "clock s < clock s1" by simp
  show ?case
  proof (cases "err = None \<and> d")
    case True
    with c waitLoop_done [of tm condition s s1 mc start] show ?thesis by auto
  next
    case False
    show ?thesis
    proof (cases "WaitTimeoutForCondition mc < timeSince start s1")
      case True
      from waitLoop_timeout [of tm condition, OF c False True] show ?thesis by blast
    next
      case nt: False
      let ?s2 = "timeSleep (overSleep tm (clock s1)) (WaitIntervalForCondition mc) s1"
      have "clock s1 \<le> clock ?s2" by (simp add: timeSleep_def)
      moreover from nt bound have "clock s1 - start \<le> WaitTimeoutForCondition mc"
        by (simp add: timeSince_def min_def max_def split: if_splits)
      ultimately
      have "nat (start + WaitTimeoutForCondition mc + 1 - clock ?s2)
              < nat (start + WaitTimeoutForCondition mc + 1 - clock s)"
        using m by simp
      from less [OF this] waitLoop_retry [of tm condition, OF c False, of start mc] nt
      show ?thesis by simp
    qed
  qed
qed

lemma waitLoop_invariant:
  assumes r: "waitLoop tm mc start condition s = Some y" and i: "I s"
    and c: "\<And>s. I s \<Longrightarrow> I (snd (poll tm condition s))"
    and sl: "\<And>s late d. I s \<Longrightarrow> I (timeSleep late d s)"
  shows "I (snd y)"
proof -
  have "tm = tm \<and> condition = condition \<longrightarrow> I s \<longrightarrow> I (snd y)"
  proof (rule waitLoop.raw_induct
      [where P = "\<lambda>tm' mc' start' condition' s' y'.
         tm' = tm \<and> condition' = condition \<longrightarrow> I s' \<longrightarrow> I (snd y')",
       OF _ r], intro impI, goal_cases)
    case (1 f tm' mc' start' condition' s' y')
    from 1(3) have tm: "tm' = tm" and co: "condition' = condition" by simp_all
    obtain d err s1 where cs: "poll tm condition s' = ((d, err), s1)"
      by (metis surj_pair)
    from c [OF 1(4)] cs have i1: "I s1" by simp
    show ?case
    proof (cases "err = None \<and> d")
      case True
      with 1(2) tm co cs i1 show ?thesis by auto
    next
      case False
      show ?thesis
      proof (cases "WaitTimeoutForCondition mc' < timeSince start' s1")
        case True
        with 1(2) tm co cs i1 False show ?thesis by auto
      next
        case nt: False
        with 1(2) tm co cs False
        have "f tm mc' start' condition
                (timeSleep (overSleep tm (clock s1)) (WaitIntervalForCondition mc') s1) = Some y'"
          by auto
        from 1(1) [OF this] sl [OF i1] show ?thesis by simp
      qed
    qed
  qed
  with i show ?thesis by simp
qed

lemma waitLoop_result:
  assumes r: "waitLoop tm mc start condition s = Some y"
  shows "(fst y = None \<and> (\<exists>s0. poll tm condition s0 = ((True, None), snd y))) \<or>
         (\<exists>s0 d err. poll tm condition s0 = ((d, err), snd y) \<and> \<not> (err = None \<and> d) \<and>
            WaitTimeoutForCondition mc < timeSince start (snd y) \<and>
            fst y = Some (WaitTimedOut (WaitTimeoutForCondition mc) err))"
proof (rule waitLoop.raw_induct
      [where P = "\<lambda>tm mc start condition s y.
         (fst y = None \<and> (\<exists>s0. poll tm condition s0 = ((True, None), snd y))) \<or>
         (\<exists>s0 d err. poll tm condition s0 = ((d, err), snd y) \<and> \<not> (err = None \<and> d) \<and>
            WaitTimeoutForCondition mc < timeSince start (snd y) \<and>
            fst y = Some (WaitTimedOut (WaitTimeoutForCondition mc) err))",
       OF _ r], goal_cases)
  case (1 f tm mc start condition s y)
  obtain d err s1 where c: "poll tm condition s = ((d, err), s1)"
    by (metis surj_pair)
  show ?case
  proof (cases "err = None \<and> d")
    case True
    with 1(2) c show ?thesis by auto
  next
    case False
    show ?thesis
    proof (cases "WaitTimeoutForCondition mc < timeSince start s1")
      case True
      with 1(2) c False have "y = (Some (WaitTimedOut (WaitTimeoutForCondition mc) err), s1)" by auto
      with c False True show ?thesis by auto
    next
      case nt: False
      with 1(2) c False
      have "f tm mc start condition
              (timeSleep (overSleep tm (clock s1)) (WaitIntervalForCondition mc) s1) = Some y"
        by auto
      from 1(1) [OF this] show ?thesis .
    qed
  qed
qed

lemma timeSince_le: "timeSince start s \<le> maxDuration"
  by (simp add: timeSince_def maxDuration_def minDuration_def)

lemma waitLoop_never:
  assumes bound: "maxDuration \<le> WaitTimeoutForCondition mc" and i: "I s"
    and fails: "\<And>s. I s \<Longrightarrow> fst (poll tm condition s) \<noteq> (True, None)"
    and step: "\<And>s. I s \<Longrightarrow>
       I (timeSleep (overSleep tm (clock (snd (poll tm condition s)))) (WaitIntervalForCondition mc)
            (snd (poll tm condition s)))"
  shows "waitLoop tm mc start condition s = None"
proof (cases "waitLoop tm mc start condition s")
  case None
  then show ?thesis .
next
  case (Some y)
  have "tm = tm \<and> mc = mc \<and> condition = condition \<longrightarrow> I s \<longrightarrow> False"
  proof (rule waitLoop.raw_induct
      [where P = "\<lambda>tm' mc' start' condition' s' y'.
         tm' = tm \<and> mc' = mc \<and> condition' = condition \<longrightarrow> I s' \<longrightarrow> False",
       OF _ Some], intro impI, goal_cases)
    case (1 f tm' mc' start' condition' s' y')
    from 1(3) have tm: "tm' = tm" and mc: "mc' = mc" and co: "condition' = condition" by simp_all
    obtain d err s1 where cs: "poll tm condition s' = ((d, err), s1)"
      by (metis surj_pair)
    from step [OF 1(4)] cs
    have i1: "I (timeSleep (overSleep tm (clock s1)) (WaitIntervalForCondition mc) s1)" by simp
    from fails [OF 1(4)] cs have nd: "\<not> (err = None \<and> d)" by auto
    from timeSince_le [of start' s1] bound
    have nt: "\<not> WaitTimeoutForCondition mc < timeSince start' s1" by simp
    from 1(2) tm mc co cs nd nt
    have "f tm mc start' condition
            (timeSleep (overSleep tm (clock s1)) (WaitIntervalForCondition mc) s1) = Some y'"
      by auto
    from 1(1) [OF this] i1 show ?case by simp
  qed
  with i show ?thesis by simp
qed

lemma loopState_Suc:
  "loopState tm mc condition (Suc n) s =
     timeSleep (overSleep tm (clock (snd (poll tm condition (loopState tm mc condition n s)))))
       (WaitIntervalForCondition mc) (snd (poll tm condition (loopState tm mc condition n s)))"
  by (induction n arbitrary: s) simp_all

lemma waitLoop_eventually:
  assumes "fst (poll tm condition (loopState tm mc condition n s)) = (True, None)"
  shows "\<exists>r. waitLoop tm mc start condition s = Some r"
  using assms
proof (induction n arbitrary: s)
  case 0
  obtain s1 where "poll tm condition s = ((True, None), s1)"
    using 0 by (cases "poll tm condition s") auto
  from waitLoop_done [OF this] show ?case by blast
next
  case (Suc n)
  obtain d err s1 where c: "poll tm condition s = ((d, err), s1)"
    by (metis surj_pair)
  show ?case
  proof (cases "err = None \<and> d")
    case True
    with c waitLoop_done [of tm condition s s1 mc start] show ?thesis by auto
  next
    case False
    show ?thesis
    proof (cases "WaitTimeoutForCondition mc < timeSince start s1")
      case True
      from waitLoop_timeout [of tm condition, OF c False True] show ?thesis by blast
    next
      case nt: False
      let ?s2 = "timeSleep (overSleep tm (clock s1)) (WaitIntervalForCondition mc) s1"
      from Suc.prems c have "fst (poll tm condition (loopState tm mc condition n ?s2)) = (True, None)"
        by simp
      from Suc.IH [OF this] waitLoop_retry [of tm condition, OF c False, of start mc] nt
      show ?thesis by simp
    qed
  qed
qed

lemma waitLoop_never_succeeds:
  assumes bound: "maxDuration \<le> WaitTimeoutForCondition mc"
    and fails: "\<forall>n. fst (poll tm condition (loopState tm mc condition n s)) \<noteq> (True, None)"
  shows "waitLoop tm mc start condition s = None"
proof (rule waitLoop_never [where I = "\<lambda>s'. \<exists>n. s' = loopState tm mc condition n s", OF bound])
  show "\<exists>n. s = loopState tm mc condition n s" by (rule exI [of _ 0]) simp
  show "fst (poll tm condition s') \<noteq> (True, None)"
    if "\<exists>n. s' = loopState tm mc condition n s" for s'
    using that fails by auto
  show "\<exists>n. timeSleep (overSleep tm (clock (snd (poll tm condition s')))) (WaitIntervalForCondition mc)
            (snd (poll tm condition s')) = loopState tm mc condition n s"
    if "\<exists>n. s' = loopState tm mc condition n s" for s'
  proof -
    from that obtain n where "s' = loopState tm mc condition n s" by blast
    then show ?thesis by (intro exI [of _ "Suc n"]) (simp only: loopState_Suc)
  qed
qed

section \<open>Reconciling an unchanged definition\<close>

text \<open>
  C2. In the reconcile of the CRD based supervisor, when a watch controller is
  registered under the key of the definition and its stored spec is semantically equal
  to the spec of the definition, \<^verbatim>\<open>syncGenericController\<close> returns nil and leaves the state
  as it was: the map is the same and the trace has no new event, so nothing was stopped,
  constructed or started. The same holds for \<^verbatim>\<open>sync\<close> on a key whose definition the
  lister finds.
\<close>

theorem reconcile_equal_spec_is_noop:
  assumes "map_of (WatchControllers s) (Key ctrl) = Some c"
    and "deq (Spec ctrl) (Spec (GCtlConfig c))"
  shows "syncGenericController nwc deq workerCount ctrl s = (None, s) \<and>
         (SplitMetaNamespaceKey key = Inr (ns, name) \<and> lister ns name = Inr ctrl \<longrightarrow>
            sync nwc deq workerCount lister key s = (None, s))"
  using assms by (simp add: syncGenericController_def sync_def)

theorem reconcile_equal_spec_is_noop_witness:
  "map_of (WatchControllers oneRunning) (Key (thing ''a'' 7 1)) =
     Some wcA \<and>
   Spec (thing ''a'' 7 1) = Spec (GCtlConfig wcA) \<and>
   SplitMetaNamespaceKey ''ns/a'' = Inr (''ns'', ''a'') \<and>
   syncGenericController (\<lambda>n conf. None) (=) 2 (thing ''a'' 7 1) oneRunning = (None, oneRunning) \<and>
   sync (\<lambda>n conf. None) (=) 2 (\<lambda>ns name. Inr (thing name 7 1)) ''ns/a'' oneRunning
     = (None, oneRunning)"
proof -
  have m: "map_of (WatchControllers oneRunning) (Key (thing ''a'' 7 1)) = Some wcA"
    by (simp add: oneRunning_def thing_def Key_def)
  have d: "Spec (thing ''a'' 7 1) = Spec (GCtlConfig wcA)"
    by (simp add: thing_def wcA_def)
  have k: "SplitMetaNamespaceKey ''ns/a'' = Inr (''ns'', ''a'')"
    by (simp add: SplitMetaNamespaceKey_def)
  from reconcile_equal_spec_is_noop [where deq = "(=)", OF m d,
      of "\<lambda>n conf. None" 2 "''ns/a''" "''ns''" "''a''" "\<lambda>ns name. Inr (thing name 7 1)"] m d k
  show ?thesis by simp
qed

section \<open>A definition that no longer exists\<close>

text \<open>
  C3. When \<^verbatim>\<open>sync\<close> looks a key up and the lister reports not-found, it returns nil and the
  key has no entry in the map afterwards. If a watch controller was registered under the
  key, it is stopped and its entry deleted, and nothing else changes; if none was, the
  state is unchanged. Since the result is nil, \<^verbatim>\<open>processNextWorkItem\<close> forgets the key and
  marks it done; it does not add it to the queue again.
\<close>

theorem sync_not_found_cleans_up:
  assumes "SplitMetaNamespaceKey key = Inr (ns, name)"
    and "lister ns name = Inl err"
    and "IsNotFound (Some err)"
  shows "fst (sync nwc deq workerCount lister key s) = None \<and>
         map_of (WatchControllers (snd (sync nwc deq workerCount lister key s))) key = None \<and>
         (\<forall>c. map_of (WatchControllers s) key = Some c \<longrightarrow>
            snd (sync nwc deq workerCount lister key s) =
              s\<lparr>WatchControllers := AList.delete key (WatchControllers s),
                trace := trace s @ [EvStop c]\<rparr>) \<and>
         (map_of (WatchControllers s) key = None \<longrightarrow>
            snd (sync nwc deq workerCount lister key s) = s) \<and>
         processNextWorkItem nwc deq workerCount lister (key, False) s =
           (True, (snd (sync nwc deq workerCount lister key s))
                    \<lparr>trace := trace (snd (sync nwc deq workerCount lister key s)) @
                       [EvQueueForget key, EvQueueDone key]\<rparr>)"
  using assms
  by (auto simp: sync_def processNextWorkItem_def wcStop_def delete_conv' split: option.splits)

theorem sync_not_found_cleans_up_witness:
  "SplitMetaNamespaceKey ''ns/a'' = Inr (''ns'', ''a'') \<and>
   IsNotFound (Some (NotFound ''a'')) \<and>
   map_of (WatchControllers oneRunning) ''ns/a'' = Some wcA \<and>
   sync alwaysUp (=) 2 (\<lambda>ns name. Inl (NotFound name)) ''ns/a'' oneRunning =
     (None, oneRunning\<lparr>WatchControllers := [],
        trace := trace oneRunning @ [EvStop wcA]\<rparr>) \<and>
   map_of (WatchControllers oneRunning) ''ns/b'' = None \<and>
   sync alwaysUp (=) 2 (\<lambda>ns name. Inl (NotFound name)) ''ns/b'' oneRunning =
     (None, oneRunning)"
proof -
  have k: "SplitMetaNamespaceKey ''ns/a'' = Inr (''ns'', ''a'')"
    and kb: "SplitMetaNamespaceKey ''ns/b'' = Inr (''ns'', ''b'')"
    by (simp_all add: SplitMetaNamespaceKey_def)
  have l: "(\<lambda>ns name. Inl (NotFound name)) ''ns'' ''a'' = Inl (NotFound ''a'')"
    and lb: "(\<lambda>ns name. Inl (NotFound name)) ''ns'' ''b'' = Inl (NotFound ''b'')" by simp_all
  have n: "IsNotFound (Some (NotFound ''a''))" and nb: "IsNotFound (Some (NotFound ''b''))" by simp_all
  have m: "map_of (WatchControllers oneRunning) ''ns/a'' = Some wcA"
    and mb: "map_of (WatchControllers oneRunning) ''ns/b'' = None"
    by (simp_all add: oneRunning_def)
  have d: "AList.delete ''ns/a'' (WatchControllers oneRunning) = []"
    by (simp add: oneRunning_def)
  from sync_not_found_cleans_up [where lister = "\<lambda>ns name. Inl (NotFound name)" and key = "''ns/a''"
         and ns = "''ns''" and name = "''a''" and err = "NotFound ''a''" and nwc = alwaysUp
         and deq = "(=)" and workerCount = 2 and s = oneRunning]
       sync_not_found_cleans_up [where lister = "\<lambda>ns name. Inl (NotFound name)" and key = "''ns/b''"
         and ns = "''ns''" and name = "''b''" and err = "NotFound ''b''" and nwc = alwaysUp
         and deq = "(=)" and workerCount = 2 and s = oneRunning]
       k kb n nb m mb d
  show ?thesis by (simp add: prod_eq_iff)
qed

section \<open>An update outside the spec\<close>

text \<open>
  C9. Take a definition \<open>cur\<close> for whose key a watch controller with a semantically equal
  spec is registered, and replace its metadata by anything. When the update handler
  sees the new object and the worker reconciles its key, the handler adds the key to
  the queue and the reconcile forgets it: the map and its entry are the same, and no
  watch controller is stopped, constructed or started. Only the specs are compared.
\<close>

theorem metadata_only_update_leaves_controller:
  assumes "keyFunc (cur\<lparr>Meta := meta\<rparr>) = Inr key"
    and "SplitMetaNamespaceKey key = Inr (ns, name)"
    and "lister ns name = Inr (cur\<lparr>Meta := meta\<rparr>)"
    and "map_of (WatchControllers s) (Key cur) = Some c"
    and "deq (Spec cur) (Spec (GCtlConfig c))"
  shows "processNextWorkItem nwc deq workerCount lister (key, False)
           (updateGenericController keyFunc old (cur\<lparr>Meta := meta\<rparr>) s) =
         (True, s\<lparr>trace := trace s @ [EvQueueAdd key, EvQueueForget key, EvQueueDone key]\<rparr>)"
proof -
  let ?cur = "cur\<lparr>Meta := meta\<rparr>"
  let ?s1 = "s\<lparr>trace := trace s @ [EvQueueAdd key]\<rparr>"
  have u: "updateGenericController keyFunc old ?cur s = ?s1"
    using assms(1) by (simp add: updateGenericController_def enqueueGenericController_def)
  have k: "Key ?cur = Key cur" and sp: "Spec ?cur = Spec cur" by (simp_all add: Key_def)
  have "syncGenericController nwc deq workerCount ?cur ?s1 = (None, ?s1)"
    using assms(4,5) by (simp add: syncGenericController_def k sp)
  then have "sync nwc deq workerCount lister key ?s1 = (None, ?s1)"
    using assms(2,3) by (simp add: sync_def)
  then show ?thesis
    by (simp add: u processNextWorkItem_def)
qed


theorem metadata_only_update_leaves_controller_witness:
  "SplitMetaNamespaceKey ''ns/a'' = Inr (''ns'', ''a'') \<and>
   map_of (WatchControllers oneRunning) (Key (thing ''a'' 0 1)) =
     Some wcA \<and>
   processNextWorkItem alwaysUp (=) 2 (\<lambda>ns name. Inr (thing name 5 1)) (''ns/a'', False)
     (updateGenericController (\<lambda>obj. Inr (Key obj)) (thing ''a'' 0 1) (thing ''a'' 5 1) oneRunning) =
   (True, oneRunning\<lparr>trace := trace oneRunning @
      [EvQueueAdd ''ns/a'', EvQueueForget ''ns/a'', EvQueueDone ''ns/a'']\<rparr>)"
proof -
  have k: "SplitMetaNamespaceKey ''ns/a'' = Inr (''ns'', ''a'')"
    by (simp add: SplitMetaNamespaceKey_def)
  have m: "map_of (WatchControllers oneRunning) (Key (thing ''a'' 0 1)) =
     Some wcA"
    by (simp add: oneRunning_def thing_def Key_def)
  have c: "(thing ''a'' 0 1)\<lparr>Meta := 5\<rparr> = thing ''a'' 5 1" by (simp add: thing_def)
  have kf: "Inr (Key (thing ''a'' 5 1)) = (Inr ''ns/a'' :: error + string)" by (simp add: thing_def Key_def)
  have d: "Spec (thing ''a'' 0 1) = Spec (GCtlConfig wcA)"
    by (simp add: wcA_def)
  have "processNextWorkItem alwaysUp (=) 2 (\<lambda>ns name. Inr (thing name 5 1)) (''ns/a'', False)
     (updateGenericController (\<lambda>obj. Inr (Key obj)) (thing ''a'' 0 1) ((thing ''a'' 0 1)\<lparr>Meta := 5\<rparr>) oneRunning) =
   (True, oneRunning\<lparr>trace := trace oneRunning @
      [EvQueueAdd ''ns/a'', EvQueueForget ''ns/a'', EvQueueDone ''ns/a'']\<rparr>)"
  proof (rule metadata_only_update_leaves_controller [where ns = "''ns''" and name = "''a''"
         and c = "wcA"])
    show "Inr (Key ((thing ''a'' 0 1)\<lparr>Meta := 5\<rparr>)) = (Inr ''ns/a'' :: error + string)"
      unfolding c by (rule kf)
    show "SplitMetaNamespaceKey ''ns/a'' = Inr (''ns'', ''a'')" by (rule k)
    show "Inr (thing ''a'' 5 1) = (Inr ((thing ''a'' 0 1)\<lparr>Meta := 5\<rparr>) :: error + (nat, nat) GenericController)"
      unfolding c by (rule refl)
    show "map_of (WatchControllers oneRunning) (Key (thing ''a'' 0 1)) =
      Some wcA" by (rule m)
    show "Spec (thing ''a'' 0 1) = Spec (GCtlConfig wcA)" by (rule d)
  qed
  then show ?thesis unfolding c using k m by blast
qed

section \<open>One watch controller per key\<close>

lemma New_events:
  "set (snd (NewConfigBasedMetaController Load ListGCs workerCount opts))
     \<subseteq> {EvConfigFn, EvListGenericControllers} \<union> range EvLoad"
  by (auto simp: NewConfigBasedMetaController_def split: sum.splits option.splits if_splits prod.splits)

lemma New_events_neutral:
  "\<forall>e \<in> set (snd (NewConfigBasedMetaController Load ListGCs workerCount opts)). neutral e"
  using New_events [of Load ListGCs workerCount opts] by auto

lemma consistent_startAllWatchControllers:
  "consistent s \<Longrightarrow> consistent (snd (startAllWatchControllers nwc mc s))"
  by (simp add: startAllWatchControllers_def consistent_startAllLoop)

lemma consistent_poll:
  "consistent s \<Longrightarrow> consistent (snd (poll tm (startAllWatchControllers nwc mc) s))"
  by (simp add: poll_eq consistent_clock consistent_startAllWatchControllers)

lemma consistent_wait:
  assumes "wait tm mc (startAllWatchControllers nwc mc) s = Some y" "consistent s"
  shows "consistent (snd y)"
  using assms(1) unfolding wait_def
  by (rule waitLoop_invariant [where I = consistent])
     (simp_all add: assms(2) consistent_poll consistent_timeSleep)

lemma consistent_ConfigBased_Start:
  assumes "ConfigBased_Start tm nwc mc s = Some out" "consistent s"
  shows "consistent (stateOf out)"
proof -
  from assms(1) obtain y where y: "wait tm mc (startAllWatchControllers nwc mc) s = Some y"
    by (auto simp: ConfigBased_Start_def split: option.splits)
  from consistent_wait [OF y assms(2)] have c: "consistent (snd y)" .
  from consistent_neutral1 [OF c, of EvCloseDoneCh] c assms(1) y
  show ?thesis
    by (cases y) (auto simp: ConfigBased_Start_def split: option.splits)
qed

lemma consistent_onePerKey_always:
  "consistent s \<Longrightarrow> prefix p (trace s) \<Longrightarrow> distinct (map wcKey (running p))"
  by (simp add: consistent_def onePerKey_def)

lemma syncGenericController_changed_spec:
  assumes "map_of (WatchControllers s) (Key ctrl) = Some c"
    and "\<not> deq (Spec ctrl) (Spec (GCtlConfig c))"
  shows "trace (snd (syncGenericController nwc deq workerCount ctrl s)) =
           trace s @ [EvStop c, EvNew (nwcCalls s) ctrl] @
             (case nwc (nwcCalls s) ctrl of
                None \<Rightarrow> [EvStart \<lparr>wcRef = nwcCalls s, GCtlConfig = ctrl\<rparr> workerCount]
              | Some err \<Rightarrow> [])"
  using assms
  by (simp add: syncGenericController_def newWatchController_def Let_def wcStop_def wcStart_def
      split: option.splits)

lemma startAllWatchControllers_untouched:
  "list_all (untouched (WatchControllers s)) (since s (snd (startAllWatchControllers nwc mc s)))"
  using grows_startAllLoop [of s nwc mc "GenericControllerConfigs mc"]
  by (simp add: grows_def startAllWatchControllers_def)

text \<open>
  C1. At every moment no two running watch controllers have definitions with the same
  key, and the registered watch controllers are the running ones, one entry per key:
  in every run of the worker of the CRD based supervisor from its construction, and in
  every run of \<^verbatim>\<open>ConfigBasedMetaController.Start\<close> from its construction that comes to an
  end, whether it returns or is fatal; every pass, every call of the condition in the
  wait loop and every sleep keeps the invariant, so this holds in a run without end too. When the CRD based
  supervisor reconciles a definition whose spec changed, the registered watch controller
  is stopped first, then the new one is constructed, and it is started if the
  construction succeeds. A pass of the config based supervisor starts a watch controller
  only for a key that the map did not have.
\<close>

theorem one_watch_controller_per_key:
  fixes nwc :: "('m, 's) nwc"
  shows
  "(\<forall>p. prefix p (trace (worker nwc deq workerCount gets (initial now []))) \<longrightarrow>
       distinct (map wcKey (running p))) \<and>
   set (running (trace (worker nwc deq workerCount gets (initial now [])))) =
     snd ` set (WatchControllers (worker nwc deq workerCount gets (initial now []))) \<and>
   distinct (map fst (WatchControllers (worker nwc deq workerCount gets (initial now [])))) \<and>
   (\<forall>s c. map_of (WatchControllers s) (Key ctrl) = Some c \<and> \<not> deq (Spec ctrl) (Spec (GCtlConfig c)) \<longrightarrow>
      trace (snd (syncGenericController nwc deq workerCount ctrl s)) =
        trace s @ [EvStop c, EvNew (nwcCalls s) ctrl] @
          (case nwc (nwcCalls s) ctrl of
             None \<Rightarrow> [EvStart \<lparr>wcRef = nwcCalls s, GCtlConfig = ctrl\<rparr> workerCount]
           | Some err \<Rightarrow> [])) \<and>
   (\<forall>mc evs out.
      NewConfigBasedMetaController Load ListGCs workerCount opts = (Inr mc, evs) \<and>
      ConfigBased_Start tm nwc mc (initial now evs) = Some out \<longrightarrow>
        (\<forall>p. prefix p (trace (stateOf out)) \<longrightarrow> distinct (map wcKey (running p))) \<and>
        set (running (trace (stateOf out))) = snd ` set (WatchControllers (stateOf out)) \<and>
        distinct (map fst (WatchControllers (stateOf out)))) \<and>
   (\<forall>mc s late d. consistent s \<longrightarrow>
      consistent (snd (startAllWatchControllers nwc mc s)) \<and>
      consistent (snd (poll tm (startAllWatchControllers nwc mc) s)) \<and>
      consistent (timeSleep late d s)) \<and>
   (\<forall>mc s c n. EvStart c n \<in> set (since s (snd (startAllWatchControllers nwc mc s))) \<longrightarrow>
      map_of (WatchControllers s) (wcKey c) = None)"
proof (intro conjI allI impI)
  let ?s = "worker nwc deq workerCount gets (initial now [])"
  have c: "consistent ?s"
    by (rule consistent_worker) (simp add: consistent_initial)
  show "distinct (map wcKey (running p))" if "prefix p (trace ?s)" for p
    using c that by (rule consistent_onePerKey_always)
  show "set (running (trace ?s)) = snd ` set (WatchControllers ?s)"
    using c by (simp add: consistent_def)
  show "distinct (map fst (WatchControllers ?s))"
    using c by (simp add: consistent_def)
next
  fix s :: "('m, 's) state" and c
  assume "map_of (WatchControllers s) (Key ctrl) = Some c \<and> \<not> deq (Spec ctrl) (Spec (GCtlConfig c))"
  then show "trace (snd (syncGenericController nwc deq workerCount ctrl s)) =
        trace s @ [EvStop c, EvNew (nwcCalls s) ctrl] @
          (case nwc (nwcCalls s) ctrl of
             None \<Rightarrow> [EvStart \<lparr>wcRef = nwcCalls s, GCtlConfig = ctrl\<rparr> workerCount]
           | Some err \<Rightarrow> [])"
    using syncGenericController_changed_spec [of s ctrl c deq nwc workerCount] by simp
next
  fix mc evs out
  assume a: "NewConfigBasedMetaController Load ListGCs workerCount opts = (Inr mc, evs) \<and>
      ConfigBased_Start tm nwc mc (initial now evs) = Some out"
  with New_events_neutral [of Load ListGCs workerCount opts]
  have ci: "consistent (initial now evs)" by (simp add: consistent_initial)
  from a have st: "ConfigBased_Start tm nwc mc (initial now evs) = Some out" by simp
  from consistent_ConfigBased_Start [OF st ci] have c: "consistent (stateOf out)" .
  show "distinct (map wcKey (running p))" if "prefix p (trace (stateOf out))" for p
    using c that by (rule consistent_onePerKey_always)
  show "set (running (trace (stateOf out))) = snd ` set (WatchControllers (stateOf out))"
    using c by (simp add: consistent_def)
  show "distinct (map fst (WatchControllers (stateOf out)))"
    using c by (simp add: consistent_def)
next
  fix mc :: "('m, 's) ConfigBasedMetaController" and s :: "('m, 's) state" and late d
  assume c: "consistent s"
  show "consistent (snd (startAllWatchControllers nwc mc s))"
    using c by (rule consistent_startAllWatchControllers)
  show "consistent (snd (poll tm (startAllWatchControllers nwc mc) s))"
    using c by (rule consistent_poll)
  show "consistent (timeSleep late d s)"
    using c by (rule consistent_timeSleep)
next
  fix mc s c n
  assume "EvStart c n \<in> set (since s (snd (startAllWatchControllers nwc mc s)))"
  with startAllWatchControllers_untouched [of s nwc mc]
  show "map_of (WatchControllers s) (wcKey c) = None"
    by (force simp: list_all_iff)
qed


theorem one_watch_controller_per_key_witness:
  "prefix [EvNew 0 (thing ''a'' 0 1), EvStart wcA 2, EvQueueForget ''ns/a'', EvQueueDone ''ns/a'',
           EvStop wcA, EvNew 1 (thing ''a'' 0 2),
           EvStart \<lparr>wcRef = 1, GCtlConfig = thing ''a'' 0 2\<rparr> 2]
     (trace (worker alwaysUp (=) 2 exampleGets (initial 0 []))) \<and>
   distinct (map wcKey (running
     [EvNew 0 (thing ''a'' 0 1), EvStart wcA 2, EvQueueForget ''ns/a'', EvQueueDone ''ns/a'',
      EvStop wcA, EvNew 1 (thing ''a'' 0 2),
      EvStart \<lparr>wcRef = 1, GCtlConfig = thing ''a'' 0 2\<rparr> 2])) \<and>
   map_of (WatchControllers oneRunning) (Key (thing ''a'' 0 2)) = Some wcA \<and>
   Spec (thing ''a'' 0 2) \<noteq> Spec (GCtlConfig wcA) \<and>
   trace (snd (syncGenericController alwaysUp (=) 2 (thing ''a'' 0 2) oneRunning)) =
     trace oneRunning @
       [EvStop wcA, EvNew 1 (thing ''a'' 0 2),
        EvStart \<lparr>wcRef = 1, GCtlConfig = thing ''a'' 0 2\<rparr> 2] \<and>
   NewConfigBasedMetaController exampleLoad Inr 2
       [SetMetaControllerConfigPath ''/etc/metac'', SetGenericControllerAsConfigFn (Some (Inr []))] =
     (Inr exampleMC, [EvLoad ''/etc/metac'', EvListGenericControllers]) \<and>
   ConfigBased_Start onTime downOnce exampleMC (initial 0 [EvLoad ''/etc/metac'', EvListGenericControllers]) =
     Some (Returned
       \<lparr>WatchControllers =
          [(''ns/a'', wcA), (''ns/b'', \<lparr>wcRef = 2, GCtlConfig = thing ''b'' 0 3\<rparr>),
           (''ns/c'', \<lparr>wcRef = 3, GCtlConfig = thing ''c'' 0 4\<rparr>)],
        clock = 1000000002,
        trace =
          [EvLoad ''/etc/metac'', EvListGenericControllers, EvNew 0 (thing ''a'' 0 1), EvStart wcA 2,
           EvNew 1 (thing ''b'' 0 3), EvSleep 1000000000, EvNew 2 (thing ''b'' 0 3),
           EvStart \<lparr>wcRef = 2, GCtlConfig = thing ''b'' 0 3\<rparr> 2, EvNew 3 (thing ''c'' 0 4),
           EvStart \<lparr>wcRef = 3, GCtlConfig = thing ''c'' 0 4\<rparr> 2, EvCloseDoneCh],
        nwcCalls = 4\<rparr>) \<and>
   distinct (map wcKey (running
     [EvLoad ''/etc/metac'', EvListGenericControllers, EvNew 0 (thing ''a'' 0 1), EvStart wcA 2,
      EvNew 1 (thing ''b'' 0 3), EvSleep 1000000000, EvNew 2 (thing ''b'' 0 3),
      EvStart \<lparr>wcRef = 2, GCtlConfig = thing ''b'' 0 3\<rparr> 2, EvNew 3 (thing ''c'' 0 4),
      EvStart \<lparr>wcRef = 3, GCtlConfig = thing ''c'' 0 4\<rparr> 2, EvCloseDoneCh])) \<and>
   consistent (initial 0 [] :: (nat, nat) state) \<and>
   consistent (snd (startAllWatchControllers downOnce exampleMC (initial 0 []))) \<and>
   EvStart \<lparr>wcRef = 1, GCtlConfig = thing ''b'' 0 3\<rparr> 2
     \<in> set (since oneRunning (snd (startAllWatchControllers alwaysUp exampleMC oneRunning))) \<and>
   map_of (WatchControllers oneRunning) (wcKey \<lparr>wcRef = 1, GCtlConfig = thing ''b'' 0 3\<rparr>) = None"
proof -
  let ?p = "[EvNew 0 (thing ''a'' 0 1), EvStart wcA 2, EvQueueForget ''ns/a'', EvQueueDone ''ns/a'',
           EvStop wcA, EvNew 1 (thing ''a'' 0 2),
           EvStart \<lparr>wcRef = 1, GCtlConfig = thing ''a'' 0 2\<rparr> 2]"
  let ?evs = "[EvLoad ''/etc/metac'', EvListGenericControllers]"
  let ?st = "\<lparr>WatchControllers =
          [(''ns/a'', wcA), (''ns/b'', \<lparr>wcRef = 2, GCtlConfig = thing ''b'' 0 3\<rparr>),
           (''ns/c'', \<lparr>wcRef = 3, GCtlConfig = thing ''c'' 0 4\<rparr>)],
        clock = 1000000002,
        trace =
          [EvLoad ''/etc/metac'', EvListGenericControllers, EvNew 0 (thing ''a'' 0 1), EvStart wcA 2,
           EvNew 1 (thing ''b'' 0 3), EvSleep 1000000000, EvNew 2 (thing ''b'' 0 3),
           EvStart \<lparr>wcRef = 2, GCtlConfig = thing ''b'' 0 3\<rparr> 2, EvNew 3 (thing ''c'' 0 4),
           EvStart \<lparr>wcRef = 3, GCtlConfig = thing ''c'' 0 4\<rparr> 2, EvCloseDoneCh],
        nwcCalls = 4\<rparr>"
  note inst = one_watch_controller_per_key [where nwc = alwaysUp and tm = onTime and deq = "(=)" and workerCount = 2
      and gets = exampleGets and now = 0 and ctrl = "thing ''a'' 0 2" and Load = exampleLoad
      and ListGCs = Inr
      and opts = "[SetMetaControllerConfigPath ''/etc/metac'', SetGenericControllerAsConfigFn (Some (Inr []))]"]
  note inst' = one_watch_controller_per_key [where nwc = downOnce and tm = onTime and deq = "(=)" and workerCount = 2
      and gets = exampleGets and now = 0 and ctrl = "thing ''a'' 0 2" and Load = exampleLoad
      and ListGCs = Inr
      and opts = "[SetMetaControllerConfigPath ''/etc/metac'', SetGenericControllerAsConfigFn (Some (Inr []))]"]
  have pre: "prefix ?p (trace (worker alwaysUp (=) 2 exampleGets (initial 0 [])))"
    by code_simp
  from inst pre have 1: "distinct (map wcKey (running ?p))" by blast
  have m: "map_of (WatchControllers oneRunning) (Key (thing ''a'' 0 2)) = Some wcA"
    by code_simp
  have ne: "Spec (thing ''a'' 0 2) \<noteq> Spec (GCtlConfig wcA)"
    by code_simp
  from inst m ne have "trace (snd (syncGenericController alwaysUp (=) 2 (thing ''a'' 0 2) oneRunning)) =
     trace oneRunning @ [EvStop wcA, EvNew (nwcCalls oneRunning) (thing ''a'' 0 2)] @
          (case alwaysUp (nwcCalls oneRunning) (thing ''a'' 0 2) of
             None \<Rightarrow> [EvStart \<lparr>wcRef = nwcCalls oneRunning, GCtlConfig = thing ''a'' 0 2\<rparr> 2]
           | Some err \<Rightarrow> [])" by blast
  then have 2: "trace (snd (syncGenericController alwaysUp (=) 2 (thing ''a'' 0 2) oneRunning)) =
     trace oneRunning @
       [EvStop wcA, EvNew 1 (thing ''a'' 0 2),
        EvStart \<lparr>wcRef = 1, GCtlConfig = thing ''a'' 0 2\<rparr> 2]"
    by (simp add: alwaysUp_def oneRunning_def)
  have n: "NewConfigBasedMetaController exampleLoad Inr 2
       [SetMetaControllerConfigPath ''/etc/metac'', SetGenericControllerAsConfigFn (Some (Inr []))] =
     (Inr exampleMC, ?evs)"
    by code_simp
  have st: "ConfigBased_Start onTime downOnce exampleMC (initial 0 ?evs) = Some (Returned ?st)"
    by code_simp
  from inst' n st have "\<forall>p. prefix p (trace (stateOf (Returned ?st))) \<longrightarrow> distinct (map wcKey (running p))"
    by blast
  then have 3: "distinct (map wcKey (running
     [EvLoad ''/etc/metac'', EvListGenericControllers, EvNew 0 (thing ''a'' 0 1), EvStart wcA 2,
      EvNew 1 (thing ''b'' 0 3), EvSleep 1000000000, EvNew 2 (thing ''b'' 0 3),
      EvStart \<lparr>wcRef = 2, GCtlConfig = thing ''b'' 0 3\<rparr> 2, EvNew 3 (thing ''c'' 0 4),
      EvStart \<lparr>wcRef = 3, GCtlConfig = thing ''c'' 0 4\<rparr> 2, EvCloseDoneCh]))" by simp
  have c0: "consistent (initial 0 [] :: (nat, nat) state)"
    by (simp add: consistent_initial)
  from inst' c0 have 4: "consistent (snd (startAllWatchControllers downOnce exampleMC (initial 0 [])))"
    by blast
  have e: "EvStart \<lparr>wcRef = 1, GCtlConfig = thing ''b'' 0 3\<rparr> 2
     \<in> set (since oneRunning (snd (startAllWatchControllers alwaysUp exampleMC oneRunning)))"
    by code_simp
  from inst e have 5: "map_of (WatchControllers oneRunning) (wcKey \<lparr>wcRef = 1, GCtlConfig = thing ''b'' 0 3\<rparr>) = None"
    by blast
  from pre 1 m ne 2 n st 3 c0 4 e 5 show ?thesis by blast
qed

section \<open>A pass over the configured definitions\<close>

lemma attempted_append: "attempted (xs @ ys) = attempted xs @ attempted ys"
  by (induction xs rule: attempted.induct) auto

lemma attempted_untouched:
  "list_all (untouched al) evs \<Longrightarrow> conf \<in> set (attempted evs) \<Longrightarrow> map_of al (Key conf) = None"
  by (induction evs rule: attempted.induct) auto

lemma startAllLoop_attempted_distinct:
  "distinct (map Key (attempted (since s (snd (startAllLoop nwc mc confs s)))))"
proof (induction confs arbitrary: s)
  case Nil
  show ?case by (simp add: since_def)
next
  case (Cons conf confs)
  show ?case
  proof (cases "map_of (WatchControllers s) (Key conf)")
    case (Some c)
    with Cons [of s] show ?thesis by simp
  next
    case None
    show ?thesis
    proof (cases "nwc (nwcCalls s) conf")
      case (Some err)
      with None show ?thesis by (simp add: newWatchController_def Let_def since_def)
    next
      case nwcNone: None
      let ?wc = "\<lparr>wcRef = nwcCalls s, GCtlConfig = conf\<rparr>"
      let ?s1 = "s\<lparr>trace := trace s @ [EvNew (nwcCalls s) conf], nwcCalls := Suc (nwcCalls s)\<rparr>"
      let ?s2 = "(wcStart ?wc (WorkerCount mc) ?s1)
              \<lparr>WatchControllers := AList.update (Key conf) ?wc (WatchControllers ?s1)\<rparr>"
      let ?r = "snd (startAllLoop nwc mc confs ?s2)"
      have step: "startAllLoop nwc mc (conf # confs) s = startAllLoop nwc mc confs ?s2"
        using None nwcNone by (simp add: newWatchController_def Let_def)
      have g: "grows ?s2 ?r" by (rule grows_startAllLoop)
      have p1: "prefix (trace s) (trace ?s2)" by (simp add: wcStart_def)
      have p2: "prefix (trace ?s2) (trace ?r)" using g by (simp add: grows_def)
      have s12: "since s ?s2 = [EvNew (nwcCalls s) conf, EvStart ?wc (WorkerCount mc)]"
        by (simp add: since_def wcStart_def)
      have u: "list_all (untouched (WatchControllers ?s2)) (since ?s2 ?r)"
        using g by (simp add: grows_def)
      have "Key conf \<notin> Key ` set (attempted (since ?s2 ?r))"
      proof
        assume "Key conf \<in> Key ` set (attempted (since ?s2 ?r))"
        then obtain d where d: "d \<in> set (attempted (since ?s2 ?r))" "Key d = Key conf" by auto
        from attempted_untouched [OF u d(1)] d(2) show False by (simp add: update_conv')
      qed
      with Cons [of ?s2] show ?thesis
        unfolding step since_trans [OF p1 p2] s12 by (simp add: attempted_append)
    qed
  qed
qed

lemma startAllLoop_new_entries:
  "\<forall>(k, wc) \<in> set (drop (length (WatchControllers s)) (WatchControllers (snd (startAllLoop nwc mc confs s)))).
     find (\<lambda>d. Key d = k) confs = Some (GCtlConfig wc) \<and> map_of (WatchControllers s) k = None"
proof (induction confs arbitrary: s)
  case Nil
  show ?case by simp
next
  case (Cons conf confs)
  show ?case
  proof (cases "map_of (WatchControllers s) (Key conf)")
    case (Some c)
    with Cons [of s] show ?thesis by fastforce
  next
    case None
    show ?thesis
    proof (cases "nwc (nwcCalls s) conf")
      case (Some err)
      with None show ?thesis by (simp add: newWatchController_def Let_def)
    next
      case nwcNone: None
      let ?wc = "\<lparr>wcRef = nwcCalls s, GCtlConfig = conf\<rparr>"
      let ?s1 = "s\<lparr>trace := trace s @ [EvNew (nwcCalls s) conf], nwcCalls := Suc (nwcCalls s)\<rparr>"
      let ?s2 = "(wcStart ?wc (WorkerCount mc) ?s1)
              \<lparr>WatchControllers := AList.update (Key conf) ?wc (WatchControllers ?s1)\<rparr>"
      let ?r = "snd (startAllLoop nwc mc confs ?s2)"
      have step: "startAllLoop nwc mc (conf # confs) s = startAllLoop nwc mc confs ?s2"
        using None nwcNone by (simp add: newWatchController_def Let_def)
      from None have "Key conf \<notin> fst ` set (WatchControllers s)" by (simp add: map_of_eq_None_iff)
      then have w2: "WatchControllers ?s2 = WatchControllers s @ [(Key conf, ?wc)]"
        by (simp add: update_absent wcStart_def)
      have g: "grows ?s2 ?r" by (rule grows_startAllLoop)
      then obtain new where new: "WatchControllers ?r = WatchControllers ?s2 @ new"
        by (auto simp: grows_def prefix_def)
      then have d2: "drop (length (WatchControllers ?s2)) (WatchControllers ?r) = new" by simp
      have d1: "drop (length (WatchControllers s)) (WatchControllers ?r) = (Key conf, ?wc) # new"
        unfolding new w2 by simp
      have "find (\<lambda>d. Key d = k) (conf # confs) = Some (GCtlConfig wc) \<and> map_of (WatchControllers s) k = None"
        if "(k, wc) \<in> set new" for k wc
      proof -
        from Cons [of ?s2] that d2
        have "find (\<lambda>d. Key d = k) confs = Some (GCtlConfig wc)" "map_of (WatchControllers ?s2) k = None"
          by auto
        then show ?thesis unfolding w2 by (auto split: if_splits)
      qed
      with None show ?thesis unfolding step d1 by auto
    qed
  qed
qed

lemma spec_pending_cong:
  "set keys = set keys' \<Longrightarrow> spec_pending keys confs = spec_pending keys' confs"
proof (induction confs arbitrary: keys keys')
  case Nil
  show ?case by simp
next
  case (Cons conf confs)
  from Cons.prems have "set (Key conf # keys) = set (Key conf # keys')" by simp
  from Cons.IH [OF this] Cons.IH [OF Cons.prems] Cons.prems show ?case by simp
qed

lemma spec_pending_iff:
  "conf \<in> set (spec_pending keys confs) \<longleftrightarrow>
     conf \<in> set confs \<and> Key conf \<notin> set keys \<and> find (\<lambda>d. Key d = Key conf) confs = Some conf"
proof (induction confs arbitrary: keys)
  case Nil
  show ?case by simp
next
  case (Cons c confs)
  show ?case using Cons [of keys] Cons [of "Key c # keys"] by auto
qed

lemma spec_pending_distinct: "distinct (map Key (spec_pending keys confs))"
proof (induction confs arbitrary: keys)
  case Nil
  show ?case by simp
next
  case (Cons c confs)
  have "Key c \<notin> Key ` set (spec_pending (Key c # keys) confs)"
    by (auto simp: spec_pending_iff)
  with Cons [of keys] Cons [of "Key c # keys"] show ?case by simp
qed

lemma spec_entries_append:
  "spec_entries n (xs @ ys) = spec_entries n xs @ spec_entries (n + length xs) ys"
  by (induction xs arbitrary: n) auto

lemma spec_events_append:
  "spec_events w n (xs @ ys) = spec_events w n xs @ spec_events w (n + length xs) ys"
  by (induction xs arbitrary: n) auto

lemma startAllLoop_exact:
  fixes nwc :: "('m, 's) nwc"
  shows
  "((\<forall>i < length (spec_pending (map fst (WatchControllers s)) confs).
       nwc (nwcCalls s + i) (spec_pending (map fst (WatchControllers s)) confs ! i) = None) \<and>
    startAllLoop nwc mc confs s =
      ((True, None),
       s\<lparr>WatchControllers := WatchControllers s @
            spec_entries (nwcCalls s) (spec_pending (map fst (WatchControllers s)) confs),
         trace := trace s @
            spec_events (WorkerCount mc) (nwcCalls s) (spec_pending (map fst (WatchControllers s)) confs),
         nwcCalls := nwcCalls s + length (spec_pending (map fst (WatchControllers s)) confs)\<rparr>)) \<or>
   (\<exists>i err. i < length (spec_pending (map fst (WatchControllers s)) confs) \<and>
      (\<forall>j < i. nwc (nwcCalls s + j) (spec_pending (map fst (WatchControllers s)) confs ! j) = None) \<and>
      nwc (nwcCalls s + i) (spec_pending (map fst (WatchControllers s)) confs ! i) = Some err \<and>
      startAllLoop nwc mc confs s =
        ((False, Some (Wrapped (''Failed to sync key '' @
             Key (spec_pending (map fst (WatchControllers s)) confs ! i)) err)),
         s\<lparr>WatchControllers := WatchControllers s @
              spec_entries (nwcCalls s) (take i (spec_pending (map fst (WatchControllers s)) confs)),
           trace := trace s @
              spec_events (WorkerCount mc) (nwcCalls s)
                (take i (spec_pending (map fst (WatchControllers s)) confs)) @
              [EvNew (nwcCalls s + i) (spec_pending (map fst (WatchControllers s)) confs ! i)],
           nwcCalls := Suc (nwcCalls s + i)\<rparr>))"
  (is "?A confs s \<or> ?B confs s")
proof (induction confs arbitrary: s)
  case Nil
  show ?case by simp
next
  case (Cons conf confs)
  let ?keys = "map fst (WatchControllers s)"
  show ?case
  proof (cases "map_of (WatchControllers s) (Key conf)")
    case (Some c)
    then have k: "Key conf \<in> set ?keys" by (auto dest: map_of_SomeD intro: rev_image_eqI)
    with Some Cons [of s] show ?thesis by simp
  next
    case None
    then have k: "Key conf \<notin> set ?keys" by (simp add: map_of_eq_None_iff)
    let ?todo' = "spec_pending (Key conf # ?keys) confs"
    have todo: "spec_pending ?keys (conf # confs) = conf # ?todo'" using k by simp
    show ?thesis
    proof (cases "nwc (nwcCalls s) conf")
      case (Some err)
      have "?B (conf # confs) s"
        unfolding todo
        apply (rule exI [of _ 0], rule exI [of _ err])
        using None Some by (simp add: newWatchController_def Let_def)
      then show ?thesis ..
    next
      case nwcNone: None
      let ?wc = "\<lparr>wcRef = nwcCalls s, GCtlConfig = conf\<rparr>"
      let ?s1 = "s\<lparr>trace := trace s @ [EvNew (nwcCalls s) conf], nwcCalls := Suc (nwcCalls s)\<rparr>"
      let ?s2 = "(wcStart ?wc (WorkerCount mc) ?s1)
              \<lparr>WatchControllers := AList.update (Key conf) ?wc (WatchControllers ?s1)\<rparr>"
      have step: "startAllLoop nwc mc (conf # confs) s = startAllLoop nwc mc confs ?s2"
        using None nwcNone by (simp add: newWatchController_def Let_def)
      from k have w2: "WatchControllers ?s2 = WatchControllers s @ [(Key conf, ?wc)]"
        by (simp add: update_absent wcStart_def)
      have t2: "trace ?s2 = trace s @ [EvNew (nwcCalls s) conf, EvStart ?wc (WorkerCount mc)]"
        and n2: "nwcCalls ?s2 = Suc (nwcCalls s)"
        by (simp_all add: wcStart_def)
      have p2: "spec_pending (map fst (WatchControllers ?s2)) confs = ?todo'"
        unfolding w2 by (rule spec_pending_cong) auto
      from k have k': "Key conf \<notin> fst ` set (WatchControllers s)" by simp
      from Cons [of ?s2] show ?thesis
      proof
        assume a: "?A confs ?s2"
        from a have a1: "\<forall>i < length ?todo'. nwc (Suc (nwcCalls s) + i) (?todo' ! i) = None"
          unfolding p2 n2 by blast
        from a have a2: "startAllLoop nwc mc confs ?s2 =
            ((True, None),
             ?s2\<lparr>WatchControllers := WatchControllers ?s2 @ spec_entries (Suc (nwcCalls s)) ?todo',
                 trace := trace ?s2 @ spec_events (WorkerCount mc) (Suc (nwcCalls s)) ?todo',
                 nwcCalls := Suc (nwcCalls s) + length ?todo'\<rparr>)"
          unfolding p2 n2 by blast
        have "?A (conf # confs) s"
          unfolding todo step
        proof (intro conjI allI impI)
          fix i assume "i < length (conf # ?todo')"
          with a1 nwcNone show "nwc (nwcCalls s + i) ((conf # ?todo') ! i) = None"
            by (cases i) auto
        next
          show "startAllLoop nwc mc confs ?s2 =
            ((True, None),
             s\<lparr>WatchControllers := WatchControllers s @ spec_entries (nwcCalls s) (conf # ?todo'),
               trace := trace s @ spec_events (WorkerCount mc) (nwcCalls s) (conf # ?todo'),
               nwcCalls := nwcCalls s + length (conf # ?todo')\<rparr>)"
            unfolding a2 by (simp add: wcStart_def update_absent [OF k'])
        qed
        then show ?thesis ..
      next
        assume b: "?B confs ?s2"
        from b obtain i err where b1: "i < length ?todo'"
          and b2: "\<forall>j < i. nwc (Suc (nwcCalls s) + j) (?todo' ! j) = None"
          and b3: "nwc (Suc (nwcCalls s) + i) (?todo' ! i) = Some err"
          and b4: "startAllLoop nwc mc confs ?s2 =
             ((False, Some (Wrapped (''Failed to sync key '' @ Key (?todo' ! i)) err)),
              ?s2\<lparr>WatchControllers := WatchControllers ?s2 @
                     spec_entries (Suc (nwcCalls s)) (take i ?todo'),
                   trace := trace ?s2 @ spec_events (WorkerCount mc) (Suc (nwcCalls s)) (take i ?todo') @
                     [EvNew (Suc (nwcCalls s) + i) (?todo' ! i)],
                   nwcCalls := Suc (Suc (nwcCalls s) + i)\<rparr>)"
          unfolding p2 n2 by blast
        have "?B (conf # confs) s"
          unfolding todo step
        proof (rule exI [of _ "Suc i"], rule exI [of _ err], intro conjI allI impI)
          show "Suc i < length (conf # ?todo')" using b1 by simp
          show "nwc (nwcCalls s + j) ((conf # ?todo') ! j) = None" if "j < Suc i" for j
            using that b2 nwcNone by (cases j) auto
          show "nwc (nwcCalls s + Suc i) ((conf # ?todo') ! Suc i) = Some err"
            using b3 by simp
          show "startAllLoop nwc mc confs ?s2 =
            ((False, Some (Wrapped (''Failed to sync key '' @ Key ((conf # ?todo') ! Suc i)) err)),
             s\<lparr>WatchControllers := WatchControllers s @
                  spec_entries (nwcCalls s) (take (Suc i) (conf # ?todo')),
               trace := trace s @ spec_events (WorkerCount mc) (nwcCalls s) (take (Suc i) (conf # ?todo')) @
                  [EvNew (nwcCalls s + Suc i) ((conf # ?todo') ! Suc i)],
               nwcCalls := Suc (nwcCalls s + Suc i)\<rparr>)"
            unfolding b4 by (simp add: wcStart_def update_absent [OF k'])
        qed
        then show ?thesis ..
      qed
    qed
  qed
qed


lemma startAllWatchControllers_exact:
  fixes nwc :: "('m, 's) nwc"
  shows
  "((\<forall>i < length (pending mc s). nwc (nwcCalls s + i) (pending mc s ! i) = None) \<and>
    startAllWatchControllers nwc mc s =
      ((True, None),
       s\<lparr>WatchControllers := WatchControllers s @ spec_entries (nwcCalls s) (pending mc s),
         trace := trace s @ spec_events (WorkerCount mc) (nwcCalls s) (pending mc s),
         nwcCalls := nwcCalls s + length (pending mc s)\<rparr>)) \<or>
   (\<exists>i err. i < length (pending mc s) \<and>
      (\<forall>j < i. nwc (nwcCalls s + j) (pending mc s ! j) = None) \<and>
      nwc (nwcCalls s + i) (pending mc s ! i) = Some err \<and>
      startAllWatchControllers nwc mc s =
        ((False, Some (Wrapped (''Failed to sync key '' @ Key (pending mc s ! i)) err)),
         s\<lparr>WatchControllers := WatchControllers s @ spec_entries (nwcCalls s) (take i (pending mc s)),
           trace := trace s @ spec_events (WorkerCount mc) (nwcCalls s) (take i (pending mc s)) @
              [EvNew (nwcCalls s + i) (pending mc s ! i)],
           nwcCalls := Suc (nwcCalls s + i)\<rparr>))"
  unfolding pending_def startAllWatchControllers_def by (rule startAllLoop_exact)

lemma pending_iff:
  "conf \<in> set (pending mc s) \<longleftrightarrow>
     conf \<in> set (GenericControllerConfigs mc) \<and> map_of (WatchControllers s) (Key conf) = None \<and>
     find (\<lambda>d. Key d = Key conf) (GenericControllerConfigs mc) = Some conf"
  by (simp add: pending_def spec_pending_iff map_of_eq_None_iff)

lemma pending_distinct: "distinct (map Key (pending mc s))"
  by (simp add: pending_def spec_pending_distinct)

lemma spec_events_nth:
  "i < length cs \<Longrightarrow>
     EvNew (n + i) (cs ! i) \<in> set (spec_events w n cs) \<and>
     EvStart \<lparr>wcRef = n + i, GCtlConfig = cs ! i\<rparr> w \<in> set (spec_events w n cs)"
proof (induction cs arbitrary: n i)
  case Nil
  then show ?case by simp
next
  case (Cons c cs)
  show ?case
  proof (cases i)
    case 0
    then show ?thesis by simp
  next
    case (Suc k)
    with Cons.prems have "k < length cs" by simp
    from Cons.IH [OF this, of "Suc n"] Suc show ?thesis by simp
  qed
qed

lemma map_of_spec_entries:
  "distinct (map Key cs) \<Longrightarrow> i < length cs \<Longrightarrow>
     map_of (spec_entries n cs) (Key (cs ! i)) = Some \<lparr>wcRef = n + i, GCtlConfig = cs ! i\<rparr>"
proof (induction cs arbitrary: n i)
  case Nil
  then show ?case by simp
next
  case (Cons c cs)
  show ?case
  proof (cases i)
    case 0
    then show ?thesis by simp
  next
    case (Suc k)
    with Cons.prems have k: "k < length cs" and d: "distinct (map Key cs)"
      and nin: "Key c \<notin> Key ` set cs" by auto
    from k have "cs ! k \<in> set cs" by simp
    then have "Key (cs ! k) \<in> Key ` set cs" by (rule imageI)
    with nin have ne: "Key (cs ! k) \<noteq> Key c" by metis
    from Cons.IH [OF d k, of "Suc n"] Suc ne show ?thesis by simp
  qed
qed

lemma pass_progress:
  fixes nwc :: "('m, 's) nwc"
  assumes i: "i < length (pending mc s)"
    and ok: "\<forall>j \<le> i. nwc (nwcCalls s + j) (pending mc s ! j) = None"
  shows "EvNew (nwcCalls s + i) (pending mc s ! i)
           \<in> set (since s (snd (startAllWatchControllers nwc mc s))) \<and>
         EvStart \<lparr>wcRef = nwcCalls s + i, GCtlConfig = pending mc s ! i\<rparr> (WorkerCount mc)
           \<in> set (since s (snd (startAllWatchControllers nwc mc s))) \<and>
         map_of (WatchControllers (snd (startAllWatchControllers nwc mc s))) (Key (pending mc s ! i)) =
           Some \<lparr>wcRef = nwcCalls s + i, GCtlConfig = pending mc s ! i\<rparr>"
proof -
  let ?todo = "pending mc s"
  from i have "?todo ! i \<in> set ?todo" by simp
  then have absent: "map_of (WatchControllers s) (Key (?todo ! i)) = None"
    by (simp add: pending_iff)
  from startAllWatchControllers_exact [of mc s nwc] show ?thesis
  proof
    assume a: "(\<forall>i < length ?todo. nwc (nwcCalls s + i) (?todo ! i) = None) \<and>
      startAllWatchControllers nwc mc s =
        ((True, None),
         s\<lparr>WatchControllers := WatchControllers s @ spec_entries (nwcCalls s) ?todo,
           trace := trace s @ spec_events (WorkerCount mc) (nwcCalls s) ?todo,
           nwcCalls := nwcCalls s + length ?todo\<rparr>)"
    from a spec_events_nth [OF i, of "nwcCalls s" "WorkerCount mc"]
      map_of_spec_entries [OF pending_distinct i, of "nwcCalls s"] absent
    show ?thesis by (simp add: since_def map_add_def)
  next
    assume "\<exists>k err. k < length ?todo \<and>
      (\<forall>j < k. nwc (nwcCalls s + j) (?todo ! j) = None) \<and>
      nwc (nwcCalls s + k) (?todo ! k) = Some err \<and>
      startAllWatchControllers nwc mc s =
        ((False, Some (Wrapped (''Failed to sync key '' @ Key (?todo ! k)) err)),
         s\<lparr>WatchControllers := WatchControllers s @ spec_entries (nwcCalls s) (take k ?todo),
           trace := trace s @ spec_events (WorkerCount mc) (nwcCalls s) (take k ?todo) @
              [EvNew (nwcCalls s + k) (?todo ! k)],
           nwcCalls := Suc (nwcCalls s + k)\<rparr>)"
    then obtain k err where k: "k < length ?todo"
      and ke: "nwc (nwcCalls s + k) (?todo ! k) = Some err"
      and r: "startAllWatchControllers nwc mc s =
        ((False, Some (Wrapped (''Failed to sync key '' @ Key (?todo ! k)) err)),
         s\<lparr>WatchControllers := WatchControllers s @ spec_entries (nwcCalls s) (take k ?todo),
           trace := trace s @ spec_events (WorkerCount mc) (nwcCalls s) (take k ?todo) @
              [EvNew (nwcCalls s + k) (?todo ! k)],
           nwcCalls := Suc (nwcCalls s + k)\<rparr>)"
      by blast
    from ok ke have ik: "i < k" by (metis not_le_imp_less option.distinct(1))
    with k have i': "i < length (take k ?todo)" and nth: "take k ?todo ! i = ?todo ! i" by simp_all
    have d: "distinct (map Key (take k ?todo))"
      using pending_distinct [of mc s] by (simp add: take_map [symmetric] distinct_take)
    from spec_events_nth [OF i', of "nwcCalls s" "WorkerCount mc"]
      map_of_spec_entries [OF d i', of "nwcCalls s"] absent
    show ?thesis unfolding r nth by (simp add: since_def map_add_def)
  qed
qed

lemma pass_success_iff:
  fixes nwc :: "('m, 's) nwc"
  shows "fst (startAllWatchControllers nwc mc s) = (True, None) \<longleftrightarrow>
     (\<forall>i < length (pending mc s). nwc (nwcCalls s + i) (pending mc s ! i) = None)"
  using startAllWatchControllers_exact [of mc s nwc] by (elim disjE exE conjE) auto

lemma pass_constructs_pending:
  fixes nwc :: "('m, 's) nwc"
  assumes "fst (startAllWatchControllers nwc mc s) = (True, None)"
    and "conf \<in> set (GenericControllerConfigs mc)"
    and "map_of (WatchControllers s) (Key conf) = None"
    and "find (\<lambda>d. Key d = Key conf) (GenericControllerConfigs mc) = Some conf"
  shows "\<exists>n. nwc n conf = None \<and>
     EvNew n conf \<in> set (since s (snd (startAllWatchControllers nwc mc s))) \<and>
     EvStart \<lparr>wcRef = n, GCtlConfig = conf\<rparr> (WorkerCount mc)
       \<in> set (since s (snd (startAllWatchControllers nwc mc s))) \<and>
     map_of (WatchControllers (snd (startAllWatchControllers nwc mc s))) (Key conf) =
       Some \<lparr>wcRef = n, GCtlConfig = conf\<rparr>"
proof -
  from assms(2,3,4) have "conf \<in> set (pending mc s)" by (simp add: pending_iff)
  then obtain i where i: "i < length (pending mc s)" "pending mc s ! i = conf"
    by (auto simp: in_set_conv_nth)
  from assms(1) have all: "\<forall>i < length (pending mc s). nwc (nwcCalls s + i) (pending mc s ! i) = None"
    by (simp add: pass_success_iff)
  with i(1) have "\<forall>j \<le> i. nwc (nwcCalls s + j) (pending mc s ! j) = None" by simp
  from pass_progress [OF i(1) this] all i show ?thesis by auto
qed

text \<open>
  C6. \<^verbatim>\<open>startAllWatchControllers\<close> returns (true, nil) exactly when, after the call, the
  key of every configured definition has an entry in the map; otherwise it returns
  false with the wrapped error of the construction of a configured definition. In a
  pass the constructor is only called with a definition that is the first of the list
  with its key, and at most once per key; a watch controller that is started holds the
  first definition of the list with its key and gets the configured worker count; and
  every entry added to the map holds exactly the first definition of the list with its
  key. So later definitions with the same key are skipped, and nothing is merged.

  What a pass does is this and nothing else. The pending definitions are the configured
  definitions whose key has no entry, the first of each key only. The pass calls the
  constructor with the pending definitions in their order, each call a new one, up to
  the first call that fails. Every pending definition whose construction succeeds, and
  before which none failed, is constructed, started with the configured worker count and
  registered under its key, with this definition and no other. The pass succeeds exactly
  when the constructor succeeds for every pending definition; then every configured
  definition that had no entry and is the first of its key has been constructed, started
  and registered. Otherwise the pass returns the wrapped error that the constructor gave
  for the first pending definition for which it failed.
\<close>

theorem startAll_success_and_duplicates:
  fixes nwc :: "('m, 's) nwc"
  shows
  "(fst (startAllWatchControllers nwc mc s) = (True, None) \<longleftrightarrow>
      (\<forall>conf \<in> set (GenericControllerConfigs mc).
         map_of (WatchControllers (snd (startAllWatchControllers nwc mc s))) (Key conf) \<noteq> None)) \<and>
   (fst (startAllWatchControllers nwc mc s) = (True, None) \<or>
      (\<exists>conf err. conf \<in> set (GenericControllerConfigs mc) \<and>
         fst (startAllWatchControllers nwc mc s) =
           (False, Some (Wrapped (''Failed to sync key '' @ Key conf) err)))) \<and>
   list_all (firstOfKey (GenericControllerConfigs mc) (WorkerCount mc))
     (since s (snd (startAllWatchControllers nwc mc s))) \<and>
   distinct (map Key (attempted (since s (snd (startAllWatchControllers nwc mc s))))) \<and>
   (\<forall>(k, wc) \<in> set (drop (length (WatchControllers s))
                      (WatchControllers (snd (startAllWatchControllers nwc mc s)))).
      find (\<lambda>d. Key d = k) (GenericControllerConfigs mc) = Some (GCtlConfig wc)) \<and>
   (((\<forall>i < length (pending mc s). nwc (nwcCalls s + i) (pending mc s ! i) = None) \<and>
     startAllWatchControllers nwc mc s =
       ((True, None),
        s\<lparr>WatchControllers := WatchControllers s @ spec_entries (nwcCalls s) (pending mc s),
          trace := trace s @ spec_events (WorkerCount mc) (nwcCalls s) (pending mc s),
          nwcCalls := nwcCalls s + length (pending mc s)\<rparr>)) \<or>
    (\<exists>i err. i < length (pending mc s) \<and>
       (\<forall>j < i. nwc (nwcCalls s + j) (pending mc s ! j) = None) \<and>
       nwc (nwcCalls s + i) (pending mc s ! i) = Some err \<and>
       startAllWatchControllers nwc mc s =
         ((False, Some (Wrapped (''Failed to sync key '' @ Key (pending mc s ! i)) err)),
          s\<lparr>WatchControllers := WatchControllers s @ spec_entries (nwcCalls s) (take i (pending mc s)),
            trace := trace s @ spec_events (WorkerCount mc) (nwcCalls s) (take i (pending mc s)) @
               [EvNew (nwcCalls s + i) (pending mc s ! i)],
            nwcCalls := Suc (nwcCalls s + i)\<rparr>))) \<and>
   (\<forall>conf. conf \<in> set (pending mc s) \<longleftrightarrow>
      conf \<in> set (GenericControllerConfigs mc) \<and> map_of (WatchControllers s) (Key conf) = None \<and>
      find (\<lambda>d. Key d = Key conf) (GenericControllerConfigs mc) = Some conf) \<and>
   distinct (map Key (pending mc s)) \<and>
   (fst (startAllWatchControllers nwc mc s) = (True, None) \<longleftrightarrow>
      (\<forall>i < length (pending mc s). nwc (nwcCalls s + i) (pending mc s ! i) = None)) \<and>
   (\<forall>i < length (pending mc s).
      (\<forall>j \<le> i. nwc (nwcCalls s + j) (pending mc s ! j) = None) \<longrightarrow>
        EvNew (nwcCalls s + i) (pending mc s ! i)
          \<in> set (since s (snd (startAllWatchControllers nwc mc s))) \<and>
        EvStart \<lparr>wcRef = nwcCalls s + i, GCtlConfig = pending mc s ! i\<rparr> (WorkerCount mc)
          \<in> set (since s (snd (startAllWatchControllers nwc mc s))) \<and>
        map_of (WatchControllers (snd (startAllWatchControllers nwc mc s))) (Key (pending mc s ! i)) =
          Some \<lparr>wcRef = nwcCalls s + i, GCtlConfig = pending mc s ! i\<rparr>) \<and>
   (fst (startAllWatchControllers nwc mc s) = (True, None) \<longrightarrow>
      (\<forall>conf \<in> set (GenericControllerConfigs mc).
         map_of (WatchControllers s) (Key conf) = None \<and>
         find (\<lambda>d. Key d = Key conf) (GenericControllerConfigs mc) = Some conf \<longrightarrow>
           (\<exists>n. nwc n conf = None \<and>
              EvNew n conf \<in> set (since s (snd (startAllWatchControllers nwc mc s))) \<and>
              EvStart \<lparr>wcRef = n, GCtlConfig = conf\<rparr> (WorkerCount mc)
                \<in> set (since s (snd (startAllWatchControllers nwc mc s))) \<and>
              map_of (WatchControllers (snd (startAllWatchControllers nwc mc s))) (Key conf) =
                Some \<lparr>wcRef = n, GCtlConfig = conf\<rparr>)))"
  (is "?C1 \<and> ?C2 \<and> ?C3 \<and> ?C4 \<and> ?C5 \<and> ?C6 \<and> ?C7 \<and> ?C8 \<and> ?C9 \<and> ?C10 \<and> ?C11")
proof (intro conjI)
  show ?C1
    unfolding startAllWatchControllers_def
    using startAllLoop_success_iff [of nwc mc "GenericControllerConfigs mc" s]
    by (simp add: map_of_eq_None_iff)
  show ?C2
    unfolding startAllWatchControllers_def
    using startAllLoop_result [of nwc mc "GenericControllerConfigs mc" s] by simp
  show ?C3
    unfolding startAllWatchControllers_def
    by (rule startAllLoop_firstOfKey)
  show ?C4
    unfolding startAllWatchControllers_def
    by (rule startAllLoop_attempted_distinct)
  show ?C5
    unfolding startAllWatchControllers_def
    using startAllLoop_new_entries [of s nwc mc "GenericControllerConfigs mc"]
    by (simp add: case_prod_beta)
  show ?C6 by (rule startAllWatchControllers_exact)
  show ?C7 by (simp add: pending_iff)
  show ?C8 by (rule pending_distinct)
  show ?C9 by (rule pass_success_iff)
  show ?C10 using pass_progress [of _ mc s nwc] by blast
  show ?C11 using pass_constructs_pending [of nwc mc s] by blast
qed

theorem startAll_success_and_duplicates_witness:
  "fst (startAllWatchControllers alwaysUp exampleMC (initial 0 [])) = (True, None) \<and>
   thing ''a'' 0 2 \<in> set (GenericControllerConfigs exampleMC) \<and>
   map_of (WatchControllers (snd (startAllWatchControllers alwaysUp exampleMC (initial 0 []))))
     (Key (thing ''a'' 0 2)) \<noteq> None \<and>
   attempted (since (initial 0 []) (snd (startAllWatchControllers alwaysUp exampleMC (initial 0 [])))) =
     [thing ''a'' 0 1, thing ''b'' 0 3, thing ''c'' 0 4] \<and>
   distinct (map Key [thing ''a'' 0 1, thing ''b'' 0 3, thing ''c'' 0 4]) \<and>
   (''ns/a'', wcA) \<in> set (drop (length (WatchControllers (initial 0 [] :: (nat, nat) state)))
      (WatchControllers (snd (startAllWatchControllers alwaysUp exampleMC (initial 0 []))))) \<and>
   find (\<lambda>d. Key d = ''ns/a'') (GenericControllerConfigs exampleMC) = Some (GCtlConfig wcA) \<and>
   GCtlConfig wcA = thing ''a'' 0 1 \<and>
   pending exampleMC (initial 0 []) = [thing ''a'' 0 1, thing ''b'' 0 3, thing ''c'' 0 4] \<and>
   pending exampleMC afterFailedPass = [thing ''b'' 0 3, thing ''c'' 0 4] \<and>
   thing ''b'' 0 3 \<in> set (GenericControllerConfigs exampleMC) \<and>
   map_of (WatchControllers (initial 0 [] :: (nat, nat) state)) (Key (thing ''b'' 0 3)) = None \<and>
   find (\<lambda>d. Key d = Key (thing ''b'' 0 3)) (GenericControllerConfigs exampleMC) =
     Some (thing ''b'' 0 3) \<and>
   (\<exists>n. alwaysUp n (thing ''b'' 0 3) = None \<and>
      EvNew n (thing ''b'' 0 3)
        \<in> set (since (initial 0 []) (snd (startAllWatchControllers alwaysUp exampleMC (initial 0 [])))) \<and>
      EvStart \<lparr>wcRef = n, GCtlConfig = thing ''b'' 0 3\<rparr> (WorkerCount exampleMC)
        \<in> set (since (initial 0 []) (snd (startAllWatchControllers alwaysUp exampleMC (initial 0 [])))) \<and>
      map_of (WatchControllers (snd (startAllWatchControllers alwaysUp exampleMC (initial 0 []))))
          (Key (thing ''b'' 0 3)) =
        Some \<lparr>wcRef = n, GCtlConfig = thing ''b'' 0 3\<rparr>) \<and>
   (0::nat) < length (pending exampleMC (initial 0 [])) \<and>
   downOnce 0 (thing ''a'' 0 1) = None \<and>
   downOnce 1 (thing ''b'' 0 3) = Some (External ''discovery'') \<and>
   EvStart \<lparr>wcRef = nwcCalls (initial 0 [] :: (nat, nat) state) + 0,
            GCtlConfig = pending exampleMC (initial 0 []) ! 0\<rparr> (WorkerCount exampleMC)
     \<in> set (since (initial 0 []) (snd (startAllWatchControllers downOnce exampleMC (initial 0 [])))) \<and>
   fst (startAllWatchControllers downOnce exampleMC (initial 0 [])) \<noteq> (True, None)"
proof -
  note inst = startAll_success_and_duplicates [of alwaysUp exampleMC "initial 0 []"]
  note inst' = startAll_success_and_duplicates [of downOnce exampleMC "initial 0 []"]
  note constructs = inst [THEN conjunct2, THEN conjunct2, THEN conjunct2, THEN conjunct2, THEN conjunct2,
      THEN conjunct2, THEN conjunct2, THEN conjunct2, THEN conjunct2, THEN conjunct2, rule_format]
  note progress = inst' [THEN conjunct2, THEN conjunct2, THEN conjunct2, THEN conjunct2, THEN conjunct2,
      THEN conjunct2, THEN conjunct2, THEN conjunct2, THEN conjunct2, THEN conjunct1, rule_format]
  note success = inst' [THEN conjunct2, THEN conjunct2, THEN conjunct2, THEN conjunct2, THEN conjunct2,
      THEN conjunct2, THEN conjunct2, THEN conjunct2, THEN conjunct1]
  have 1: "fst (startAllWatchControllers alwaysUp exampleMC (initial 0 [])) = (True, None)"
    and 2: "thing ''a'' 0 2 \<in> set (GenericControllerConfigs exampleMC)"
    and 4: "attempted (since (initial 0 []) (snd (startAllWatchControllers alwaysUp exampleMC (initial 0 [])))) =
     [thing ''a'' 0 1, thing ''b'' 0 3, thing ''c'' 0 4]"
    and 6: "(''ns/a'', wcA) \<in> set (drop (length (WatchControllers (initial 0 [] :: (nat, nat) state)))
      (WatchControllers (snd (startAllWatchControllers alwaysUp exampleMC (initial 0 [])))))"
    and 8: "GCtlConfig wcA = thing ''a'' 0 1"
    and 9: "pending exampleMC (initial 0 []) = [thing ''a'' 0 1, thing ''b'' 0 3, thing ''c'' 0 4]"
    and 10: "pending exampleMC afterFailedPass = [thing ''b'' 0 3, thing ''c'' 0 4]"
    and 11: "thing ''b'' 0 3 \<in> set (GenericControllerConfigs exampleMC)"
    and 12: "map_of (WatchControllers (initial 0 [] :: (nat, nat) state)) (Key (thing ''b'' 0 3)) = None"
    and 13: "find (\<lambda>d. Key d = Key (thing ''b'' 0 3)) (GenericControllerConfigs exampleMC) =
     Some (thing ''b'' 0 3)"
    and 15: "(0::nat) < length (pending exampleMC (initial 0 []))"
    and 16: "downOnce 0 (thing ''a'' 0 1) = None"
    and 20: "downOnce 1 (thing ''b'' 0 3) = Some (External ''discovery'')"
    by code_simp+
  from inst 1 2 have 3: "map_of (WatchControllers (snd (startAllWatchControllers alwaysUp exampleMC (initial 0 []))))
     (Key (thing ''a'' 0 2)) \<noteq> None" by blast
  from inst have "distinct (map Key (attempted (since (initial 0 [])
     (snd (startAllWatchControllers alwaysUp exampleMC (initial 0 []))))))" by blast
  then have 5: "distinct (map Key [thing ''a'' 0 1, thing ''b'' 0 3, thing ''c'' 0 4])"
    unfolding 4 .
  from inst 6 have 7: "find (\<lambda>d. Key d = ''ns/a'') (GenericControllerConfigs exampleMC) = Some (GCtlConfig wcA)"
    by fast
  note 14 = constructs [OF 1 11 conjI [OF 12 13]]
  have first: "downOnce (nwcCalls (initial 0 [] :: (nat, nat) state) + j)
      (pending exampleMC (initial 0 []) ! j) = None" if "j \<le> 0" for j
    using that 16 unfolding 9 by (simp add: initial_def)
  have 17: "EvStart \<lparr>wcRef = nwcCalls (initial 0 [] :: (nat, nat) state) + 0,
            GCtlConfig = pending exampleMC (initial 0 []) ! 0\<rparr> (WorkerCount exampleMC)
     \<in> set (since (initial 0 []) (snd (startAllWatchControllers downOnce exampleMC (initial 0 []))))"
    by (rule progress [OF 15, THEN conjunct2, THEN conjunct1]) (rule first)
  have "\<not> (\<forall>i < length (pending exampleMC (initial 0 [])).
        downOnce (nwcCalls (initial 0 [] :: (nat, nat) state) + i)
          (pending exampleMC (initial 0 []) ! i) = None)"
    unfolding 9 using 20 by (auto simp: initial_def intro: exI [of _ 1])
  with success have 18: "fst (startAllWatchControllers downOnce exampleMC (initial 0 [])) \<noteq> (True, None)"
    by blast
  show ?thesis
    apply (intro conjI)
                      apply (rule 1)
                      apply (rule 2)
                      apply (rule 3)
                      apply (rule 4)
                      apply (rule 5)
                     apply (rule 6)
                    apply (rule 7)
                   apply (rule 8)
                  apply (rule 9)
                 apply (rule 10)
                apply (rule 11)
               apply (rule 12)
              apply (rule 13)
             apply (rule 14)
            apply (rule 15)
           apply (rule 16)
          apply (rule 20)
         apply (rule 17)
        apply (rule 18)
    done
qed

section \<open>A pass that fails, and the retries\<close>

lemma grows_startAllWatchControllers: "grows s (snd (startAllWatchControllers nwc mc s))"
  by (simp add: startAllWatchControllers_def grows_startAllLoop)

lemma grows_poll: "grows s (snd (poll tm (startAllWatchControllers nwc mc) s))"
  by (simp add: poll_eq grows_clock grows_startAllWatchControllers)

lemma grows_wait:
  assumes "wait tm mc (startAllWatchControllers nwc mc) s = Some y"
  shows "grows s (snd y)"
  using assms unfolding wait_def
proof (rule waitLoop_invariant [where I = "grows s"])
  show "grows s s" by (rule grows_refl)
  show "grows s (snd (poll tm (startAllWatchControllers nwc mc) s'))" if "grows s s'" for s'
    using that grows_poll by (rule grows_trans)
  show "grows s (timeSleep late d s')" if "grows s s'" for s' late d
    using that grows_timeSleep by (rule grows_trans)
qed

lemma startAllWatchControllers_failure:
  assumes "fst (startAllWatchControllers nwc mc s) \<noteq> (True, None)"
  shows "\<exists>pre conf rest s1 err.
     GenericControllerConfigs mc = pre @ conf # rest \<and>
     startAllLoop nwc mc pre s = ((True, None), s1) \<and>
     map_of (WatchControllers s1) (Key conf) = None \<and>
     nwc (nwcCalls s1) conf = Some err \<and>
     startAllWatchControllers nwc mc s =
       ((False, Some (Wrapped (''Failed to sync key '' @ Key conf) err)),
        s1\<lparr>trace := trace s1 @ [EvNew (nwcCalls s1) conf], nwcCalls := Suc (nwcCalls s1)\<rparr>) \<and>
     (\<forall>rest'. startAllLoop nwc mc (pre @ conf # rest') s = startAllWatchControllers nwc mc s)"
proof -
  from assms have "fst (startAllLoop nwc mc (GenericControllerConfigs mc) s) \<noteq> (True, None)"
    by (simp add: startAllWatchControllers_def)
  from startAllLoop_failure [OF this] obtain pre conf rest s1 err where
    h: "GenericControllerConfigs mc = pre @ conf # rest"
      "startAllLoop nwc mc pre s = ((True, None), s1)"
      "map_of (WatchControllers s1) (Key conf) = None"
      "nwc (nwcCalls s1) conf = Some err"
      "startAllLoop nwc mc (GenericControllerConfigs mc) s =
         ((False, Some (Wrapped (''Failed to sync key '' @ Key conf) err)),
          s1\<lparr>trace := trace s1 @ [EvNew (nwcCalls s1) conf], nwcCalls := Suc (nwcCalls s1)\<rparr>)"
    by blast
  have "startAllLoop nwc mc (pre @ conf # rest') s = startAllLoop nwc mc (GenericControllerConfigs mc) s"
    for rest'
    unfolding h(5) using h(2,3,4)
    by (simp add: startAllLoop_append newWatchController_def Let_def)
  with h show ?thesis unfolding startAllWatchControllers_def by blast
qed

text \<open>
  C10. When a pass of \<^verbatim>\<open>startAllWatchControllers\<close> does not succeed, the list of definitions
  splits into a part that the pass handled with success, the definition whose
  construction failed, and a rest; the pass returns the wrapped error with the state
  right after the failed construction, and the result is the same whatever the rest is,
  so nothing of the rest was attempted. In every pass, in every sleep, in every call of
  the condition and in every run of the wait loop that ends, the state grows: the entries that were registered stay as
  they were and in place, their watch controllers keep running, no watch controller is
  stopped, and the constructor and \<^verbatim>\<open>Start\<close> are only called for keys that had no entry.
  So the set of registered keys only grows and registered keys are skipped.
\<close>

theorem startAll_failure_keeps_what_started:
  fixes nwc :: "('m, 's) nwc"
  shows
  "(fst (startAllWatchControllers nwc mc s) \<noteq> (True, None) \<longrightarrow>
      (\<exists>pre conf rest s1 err.
         GenericControllerConfigs mc = pre @ conf # rest \<and>
         startAllLoop nwc mc pre s = ((True, None), s1) \<and>
         map_of (WatchControllers s1) (Key conf) = None \<and>
         nwc (nwcCalls s1) conf = Some err \<and>
         startAllWatchControllers nwc mc s =
           ((False, Some (Wrapped (''Failed to sync key '' @ Key conf) err)),
            s1\<lparr>trace := trace s1 @ [EvNew (nwcCalls s1) conf], nwcCalls := Suc (nwcCalls s1)\<rparr>) \<and>
         (\<forall>rest'. startAllLoop nwc mc (pre @ conf # rest') s = startAllWatchControllers nwc mc s))) \<and>
   grows s (snd (startAllWatchControllers nwc mc s)) \<and>
   grows s (timeSleep late d s) \<and>
   grows s (snd (poll tm (startAllWatchControllers nwc mc) s)) \<and>
   (\<forall>y. wait tm mc (startAllWatchControllers nwc mc) s = Some y \<longrightarrow> grows s (snd y)) \<and>
   (\<forall>s'. grows s s' \<longrightarrow>
      fst ` set (WatchControllers s) \<subseteq> fst ` set (WatchControllers s') \<and>
      (\<forall>k c. map_of (WatchControllers s) k = Some c \<longrightarrow> map_of (WatchControllers s') k = Some c) \<and>
      set (running (trace s)) \<subseteq> set (running (trace s')) \<and>
      (\<forall>c. EvStop c \<notin> set (since s s')) \<and>
      (\<forall>n conf. EvNew n conf \<in> set (since s s') \<longrightarrow> map_of (WatchControllers s) (Key conf) = None) \<and>
      (\<forall>c n. EvStart c n \<in> set (since s s') \<longrightarrow> map_of (WatchControllers s) (wcKey c) = None))"
proof (intro conjI allI impI)
  assume "fst (startAllWatchControllers nwc mc s) \<noteq> (True, None)"
  then show "\<exists>pre conf rest s1 err.
         GenericControllerConfigs mc = pre @ conf # rest \<and>
         startAllLoop nwc mc pre s = ((True, None), s1) \<and>
         map_of (WatchControllers s1) (Key conf) = None \<and>
         nwc (nwcCalls s1) conf = Some err \<and>
         startAllWatchControllers nwc mc s =
           ((False, Some (Wrapped (''Failed to sync key '' @ Key conf) err)),
            s1\<lparr>trace := trace s1 @ [EvNew (nwcCalls s1) conf], nwcCalls := Suc (nwcCalls s1)\<rparr>) \<and>
         (\<forall>rest'. startAllLoop nwc mc (pre @ conf # rest') s = startAllWatchControllers nwc mc s)"
    by (rule startAllWatchControllers_failure)
next
  show "grows s (snd (startAllWatchControllers nwc mc s))" by (rule grows_startAllWatchControllers)
  show "grows s (timeSleep late d s)" by (rule grows_timeSleep)
  show "grows s (snd (poll tm (startAllWatchControllers nwc mc) s))" by (rule grows_poll)
next
  fix y assume "wait tm mc (startAllWatchControllers nwc mc) s = Some y"
  then show "grows s (snd y)" by (rule grows_wait)
next
  fix s' :: "('m, 's) state"
  assume g: "grows s s'"
  then obtain new where new: "WatchControllers s' = WatchControllers s @ new"
    by (auto simp: grows_def prefix_def)
  show "fst ` set (WatchControllers s) \<subseteq> fst ` set (WatchControllers s')"
    using g by (rule grows_keys)
  show "set (running (trace s)) \<subseteq> set (running (trace s'))"
    using g by (auto simp: grows_def)
  from g have u: "list_all (untouched (WatchControllers s)) (since s s')" by (simp add: grows_def)
  show "EvStop c \<notin> set (since s s')" for c
    using u by (auto simp: list_all_iff)
  show "map_of (WatchControllers s) (Key conf) = None" if "EvNew n conf \<in> set (since s s')" for n conf
    using u that by (force simp: list_all_iff)
  show "map_of (WatchControllers s) (wcKey c) = None" if "EvStart c n \<in> set (since s s')" for n c
    using u that by (force simp: list_all_iff)
  show "map_of (WatchControllers s') k = Some c" if "map_of (WatchControllers s) k = Some c" for k c
    using that unfolding new by (simp add: map_add_Some_iff)
qed

theorem startAll_failure_keeps_what_started_witness:
  "startAllWatchControllers downOnce exampleMC (initial 0 []) =
     ((False, Some (Wrapped ''Failed to sync key ns/b'' (External ''discovery''))), afterFailedPass) \<and>
   (\<exists>pre conf rest s1 err.
      GenericControllerConfigs exampleMC = pre @ conf # rest \<and>
      startAllLoop downOnce exampleMC pre (initial 0 []) = ((True, None), s1) \<and>
      map_of (WatchControllers s1) (Key conf) = None \<and>
      downOnce (nwcCalls s1) conf = Some err \<and>
      startAllWatchControllers downOnce exampleMC (initial 0 []) =
        ((False, Some (Wrapped (''Failed to sync key '' @ Key conf) err)),
         s1\<lparr>trace := trace s1 @ [EvNew (nwcCalls s1) conf], nwcCalls := Suc (nwcCalls s1)\<rparr>) \<and>
      (\<forall>rest'. startAllLoop downOnce exampleMC (pre @ conf # rest') (initial 0 []) =
         startAllWatchControllers downOnce exampleMC (initial 0 []))) \<and>
   wait onTime exampleMC (startAllWatchControllers downOnce exampleMC) afterFailedPass =
     Some (None, afterRetry) \<and>
   grows afterFailedPass afterRetry \<and>
   map_of (WatchControllers afterFailedPass) ''ns/a'' = Some wcA \<and>
   map_of (WatchControllers afterRetry) ''ns/a'' = Some wcA \<and>
   EvStop wcA \<notin> set (since afterFailedPass afterRetry)"
proof -
  note inst0 = startAll_failure_keeps_what_started
     [where nwc = downOnce and mc = exampleMC and s = "initial 0 []" and tm = onTime]
  note inst1 = startAll_failure_keeps_what_started
     [where nwc = downOnce and mc = exampleMC and s = afterFailedPass and tm = onTime]
  note fails = inst0 [THEN conjunct1, rule_format]
  note waits = inst1 [THEN conjunct2, THEN conjunct2, THEN conjunct2, THEN conjunct2, THEN conjunct1,
      rule_format]
  note keeps = inst1 [THEN conjunct2, THEN conjunct2, THEN conjunct2, THEN conjunct2, THEN conjunct2,
      rule_format]
  have a: "startAllWatchControllers downOnce exampleMC (initial 0 []) =
     ((False, Some (Wrapped ''Failed to sync key ns/b'' (External ''discovery''))), afterFailedPass)"
    by code_simp
  then have f: "fst (startAllWatchControllers downOnce exampleMC (initial 0 [])) \<noteq> (True, None)"
    by simp
  note b = fails [OF f]
  have c: "wait onTime exampleMC (startAllWatchControllers downOnce exampleMC) afterFailedPass =
     Some (None, afterRetry)"
    by code_simp
  from waits [OF c] have d: "grows afterFailedPass afterRetry" by simp
  have e: "map_of (WatchControllers afterFailedPass) ''ns/a'' = Some wcA"
    by code_simp
  from keeps [OF d] e have g: "map_of (WatchControllers afterRetry) ''ns/a'' = Some wcA" by blast
  from keeps [OF d] have h: "EvStop wcA \<notin> set (since afterFailedPass afterRetry)" by blast
  show ?thesis
    apply (intro conjI)
          apply (rule a)
         apply (rule b)
        apply (rule c)
       apply (rule d)
      apply (rule e)
     apply (rule g)
    apply (rule h)
    done
qed

section \<open>The wait loop\<close>

lemma wait_returns:
  assumes "WaitTimeoutForCondition mc < maxDuration"
  shows "\<exists>y. wait tm mc condition s = Some y"
  unfolding wait_def using assms by (rule waitLoop_returns)

lemma wait_returns_iff:
  assumes "maxDuration \<le> WaitTimeoutForCondition mc"
  shows "(\<exists>y. wait tm mc condition s = Some y) \<longleftrightarrow>
         (\<exists>n. fst (poll tm condition (loopState tm mc condition n s)) = (True, None))"
proof
  assume r: "\<exists>y. wait tm mc condition s = Some y"
  show "\<exists>n. fst (poll tm condition (loopState tm mc condition n s)) = (True, None)"
  proof (rule ccontr)
    assume "\<not> (\<exists>n. fst (poll tm condition (loopState tm mc condition n s)) = (True, None))"
    then have "\<forall>n. fst (poll tm condition (loopState tm mc condition n s)) \<noteq> (True, None)" by simp
    from waitLoop_never_succeeds [OF assms this, of "timeNow s"] r show False
      by (simp add: wait_def)
  qed
next
  assume "\<exists>n. fst (poll tm condition (loopState tm mc condition n s)) = (True, None)"
  then obtain n where "fst (poll tm condition (loopState tm mc condition n s)) = (True, None)" by blast
  from waitLoop_eventually [OF this] show "\<exists>y. wait tm mc condition s = Some y"
    by (simp add: wait_def)
qed

lemma wait_eventually:
  assumes "fst (poll tm condition (loopState tm mc condition n s)) = (True, None)"
  shows "\<exists>y. wait tm mc condition s = Some y"
  unfolding wait_def using assms by (rule waitLoop_eventually)

lemma ConfigBased_Start_returns:
  assumes "WaitTimeoutForCondition mc < maxDuration"
  shows "\<exists>out. ConfigBased_Start tm nwc mc s = Some out"
proof -
  from wait_returns [OF assms, of tm "startAllWatchControllers nwc mc" s]
  obtain y where "wait tm mc (startAllWatchControllers nwc mc) s = Some y" by auto
  then show ?thesis
    by (cases y) (auto simp: ConfigBased_Start_def split: option.splits)
qed

lemma ConfigBased_Start_Fatal:
  "ConfigBased_Start tm nwc mc s = Some (Fatal e s') \<longleftrightarrow>
   wait tm mc (startAllWatchControllers nwc mc) s = Some (Some e, s')"
  by (auto simp: ConfigBased_Start_def split: option.splits)

lemma runOptions_setters:
  assumes "\<forall>opt \<in> set opts. opt \<in> range SetGenericControllerAsConfigFn \<union> range SetMetaControllerConfigPath"
  shows "\<exists>obj'. runOptions opts obj = Inr obj' \<and>
           WaitTimeoutForCondition obj' = WaitTimeoutForCondition obj \<and>
           WaitIntervalForCondition obj' = WaitIntervalForCondition obj"
  using assms
proof (induction opts arbitrary: obj)
  case Nil
  show ?case by simp
next
  case (Cons opt opts)
  then obtain obj1 where o: "opt obj = Inr obj1"
      "WaitTimeoutForCondition obj1 = WaitTimeoutForCondition obj"
      "WaitIntervalForCondition obj1 = WaitIntervalForCondition obj"
    by (auto simp: SetGenericControllerAsConfigFn_def SetMetaControllerConfigPath_def)
  from Cons have "\<exists>obj'. runOptions opts obj1 = Inr obj' \<and>
           WaitTimeoutForCondition obj' = WaitTimeoutForCondition obj1 \<and>
           WaitIntervalForCondition obj' = WaitIntervalForCondition obj1" by simp
  with o show ?case by auto
qed

lemma New_defaults:
  assumes "\<forall>opt \<in> set opts. opt \<in> range SetGenericControllerAsConfigFn \<union> range SetMetaControllerConfigPath"
    and "NewConfigBasedMetaController Load ListGCs workerCount opts = (Inr mc, evs)"
  shows "WaitTimeoutForCondition mc = 1800000000000 \<and> WaitIntervalForCondition mc = 1000000000"
proof -
  from runOptions_setters [OF assms(1), of newObj] obtain obj' where
    o: "runOptions opts newObj = Inr obj'" "WaitTimeoutForCondition obj' = 30 * Minute"
       "WaitIntervalForCondition obj' = 1 * Second"
    by auto
  from assms(2) o(1) have "WaitTimeoutForCondition mc = WaitTimeoutForCondition obj' \<and>
      WaitIntervalForCondition mc = WaitIntervalForCondition obj'"
    by (auto simp: NewConfigBasedMetaController_def split: if_splits sum.splits option.splits prod.splits)
  with o show ?thesis by (simp add: Minute_def Second_def)
qed

text \<open>
  C5, as stated, fails: \<^verbatim>\<open>wait\<close> does not terminate for every condition that keeps failing.
  The elapsed time is a \<^verbatim>\<open>time.Duration\<close> and never exceeds the largest one, so with
  \<^verbatim>\<open>WaitTimeoutForCondition\<close> set to the largest duration the loop never times out: with a
  constructor of watch controllers that always fails, the first pass fails, and neither
  \<^verbatim>\<open>wait\<close> nor \<^verbatim>\<open>Start\<close> comes to an end.
\<close>

theorem wait_forever_counterexample:
  "WaitTimeoutForCondition foreverMC = 9223372036854775807 \<and>
   WaitIntervalForCondition foreverMC = 1000000000 \<and>
   startAllWatchControllers neverUp foreverMC (initial 0 []) =
     ((False, Some (Wrapped ''Failed to sync key ns/a'' (External ''discovery''))),
      \<lparr>WatchControllers = [], clock = 0, trace = [EvNew 0 (thing ''a'' 0 1)], nwcCalls = 1\<rparr>) \<and>
   wait onTime foreverMC (startAllWatchControllers neverUp foreverMC) (initial 0 []) = None \<and>
   ConfigBased_Start onTime neverUp foreverMC (initial 0 []) = None"
proof -
  have n: "waitLoop onTime foreverMC 0 (startAllWatchControllers neverUp foreverMC) (initial 0 []) = None"
  proof (rule waitLoop_never [where I = "\<lambda>s. WatchControllers s = []"])
    show "maxDuration \<le> WaitTimeoutForCondition foreverMC"
      by (simp add: foreverMC_def maxDuration_def)
    show "WatchControllers (initial 0 [] :: (nat, nat) state) = []"
      by (simp add: initial_def)
    show "fst (poll onTime (startAllWatchControllers neverUp foreverMC) s) \<noteq> (True, None)"
      if "WatchControllers s = []" for s
      using that
      by (simp add: poll_eq startAllWatchControllers_def foreverMC_def exampleMC_def
          newWatchController_def neverUp_def Let_def)
    show "WatchControllers
            (timeSleep (overSleep onTime (clock (snd (poll onTime (startAllWatchControllers neverUp foreverMC) s))))
               (WaitIntervalForCondition foreverMC)
               (snd (poll onTime (startAllWatchControllers neverUp foreverMC) s))) = []"
      if "WatchControllers s = []" for s
      using that
      by (simp add: timeSleep_def poll_eq startAllWatchControllers_def foreverMC_def exampleMC_def
          newWatchController_def neverUp_def Let_def)
  qed
  have a: "WaitTimeoutForCondition foreverMC = 9223372036854775807"
    and b: "WaitIntervalForCondition foreverMC = 1000000000"
    and c: "startAllWatchControllers neverUp foreverMC (initial 0 []) =
     ((False, Some (Wrapped ''Failed to sync key ns/a'' (External ''discovery''))),
      \<lparr>WatchControllers = [], clock = 0, trace = [EvNew 0 (thing ''a'' 0 1)], nwcCalls = 1\<rparr>)"
    by code_simp+
  from n have d: "wait onTime foreverMC (startAllWatchControllers neverUp foreverMC) (initial 0 []) = None"
    by (simp add: wait_def timeNow_def initial_def)
  then have e: "ConfigBased_Start onTime neverUp foreverMC (initial 0 []) = None"
    by (simp add: ConfigBased_Start_def)
  from a b c d e show ?thesis by blast
qed

text \<open>
  C5, amended. In every round of the loop of \<^verbatim>\<open>wait\<close> the condition is called, and the call
  takes time. When the condition reports done without an error, the loop returns nil
  with the state the condition left. When it does not and the time since the start, a
  \<^verbatim>\<open>time.Duration\<close> that is never more than the largest one, exceeds
  \<^verbatim>\<open>WaitTimeoutForCondition\<close>, the loop returns the timeout error that wraps the condition's
  last error. Otherwise it sleeps for at least \<^verbatim>\<open>WaitIntervalForCondition\<close>, at once when
  the interval is not positive, and polls again. \<^verbatim>\<open>wait\<close> runs the loop from the current
  time. When \<^verbatim>\<open>WaitTimeoutForCondition\<close> is less than the largest duration, \<^verbatim>\<open>wait\<close> returns for
  every condition, whatever the interval is and however long the calls and the sleeps
  take. Whatever the timeout is, \<^verbatim>\<open>wait\<close> returns for a condition that succeeds in some
  round. When the timeout is the largest duration, \<^verbatim>\<open>wait\<close> returns exactly when the
  condition succeeds in some round, so it never returns for a condition that keeps
  failing. What \<^verbatim>\<open>wait\<close> returns is nil after a call that reported done without
  error, or the timeout error after a failed call that ended later than the timeout.
  \<^verbatim>\<open>Start\<close> with a timeout less than the largest duration comes to an end, and it ends
  fatally exactly when \<^verbatim>\<open>wait\<close> returns an error. An instance built with the two setters
  has a timeout of 30 minutes and an interval of 1 second, so its \<^verbatim>\<open>Start\<close> comes to an end.
\<close>

theorem wait_polls_until_done_or_timeout:
  fixes mc :: "('m, 's) ConfigBasedMetaController"
  shows
  "(\<forall>s s1. poll tm condition s = ((True, None), s1) \<longrightarrow>
      waitLoop tm mc start condition s = Some (None, s1)) \<and>
   (\<forall>s d err s1.
      poll tm condition s = ((d, err), s1) \<and> \<not> (err = None \<and> d) \<and>
      WaitTimeoutForCondition mc < timeSince start s1 \<longrightarrow>
        waitLoop tm mc start condition s =
          Some (Some (WaitTimedOut (WaitTimeoutForCondition mc) err), s1)) \<and>
   (\<forall>s d err s1.
      poll tm condition s = ((d, err), s1) \<and> \<not> (err = None \<and> d) \<and>
      timeSince start s1 \<le> WaitTimeoutForCondition mc \<longrightarrow>
        waitLoop tm mc start condition s =
          waitLoop tm mc start condition
            (s1\<lparr>clock := clock s1 + max 0 (WaitIntervalForCondition mc) + int (overSleep tm (clock s1)),
                trace := trace s1 @ [EvSleep (WaitIntervalForCondition mc)]\<rparr>)) \<and>
   (\<forall>s. poll tm condition s =
      (fst (condition s),
       (snd (condition s))\<lparr>clock := clock s + 1 + int (pollTime tm (clock s))\<rparr>)) \<and>
   (\<forall>s1 :: ('m, 's) state. timeSince start s1 =
      (if 9223372036854775807 \<le> clock s1 - start then 9223372036854775807
       else if clock s1 - start \<le> - 9223372036854775808 then - 9223372036854775808
       else clock s1 - start)) \<and>
   wait tm mc condition s = waitLoop tm mc (clock s) condition s \<and>
   (WaitTimeoutForCondition mc < 9223372036854775807 \<longrightarrow>
      (\<exists>y. wait tm mc condition s = Some y)) \<and>
   (\<forall>n. fst (poll tm condition (loopState tm mc condition n s)) = (True, None) \<longrightarrow>
      (\<exists>y. wait tm mc condition s = Some y)) \<and>
   (9223372036854775807 \<le> WaitTimeoutForCondition mc \<longrightarrow>
      ((\<exists>y. wait tm mc condition s = Some y) \<longleftrightarrow>
       (\<exists>n. fst (poll tm condition (loopState tm mc condition n s)) = (True, None)))) \<and>
   (\<forall>s0. loopState tm mc condition 0 s0 = s0) \<and>
   (\<forall>n s0. loopState tm mc condition (Suc n) s0 =
      loopState tm mc condition n
        (timeSleep (overSleep tm (clock (snd (poll tm condition s0)))) (WaitIntervalForCondition mc)
           (snd (poll tm condition s0)))) \<and>
   (\<forall>y. wait tm mc condition s = Some y \<longrightarrow>
      (fst y = None \<and> (\<exists>s0. poll tm condition s0 = ((True, None), snd y))) \<or>
      (\<exists>s0 d err. poll tm condition s0 = ((d, err), snd y) \<and> \<not> (err = None \<and> d) \<and>
         WaitTimeoutForCondition mc < timeSince (clock s) (snd y) \<and>
         fst y = Some (WaitTimedOut (WaitTimeoutForCondition mc) err))) \<and>
   (WaitTimeoutForCondition mc < 9223372036854775807 \<longrightarrow>
      (\<exists>out. ConfigBased_Start tm nwc mc s = Some out)) \<and>
   (\<forall>e s'. ConfigBased_Start tm nwc mc s = Some (Fatal e s') \<longleftrightarrow>
      wait tm mc (startAllWatchControllers nwc mc) s = Some (Some e, s')) \<and>
   (\<forall>mc' evs.
      (\<forall>opt \<in> set opts.
         opt \<in> range SetGenericControllerAsConfigFn \<union> range SetMetaControllerConfigPath) \<and>
      NewConfigBasedMetaController Load ListGCs workerCount opts = (Inr mc', evs) \<longrightarrow>
        WaitTimeoutForCondition mc' = 1800000000000 \<and>
        WaitIntervalForCondition mc' = 1000000000 \<and>
        (\<exists>out. ConfigBased_Start tm nwc mc' (initial now evs) = Some out))"
proof (intro conjI allI impI)
  fix s s1 assume "poll tm condition s = ((True, None), s1)"
  then show "waitLoop tm mc start condition s = Some (None, s1)" by (rule waitLoop_done)
next
  fix s d err s1
  assume "poll tm condition s = ((d, err), s1) \<and> \<not> (err = None \<and> d) \<and>
      WaitTimeoutForCondition mc < timeSince start s1"
  then show "waitLoop tm mc start condition s =
          Some (Some (WaitTimedOut (WaitTimeoutForCondition mc) err), s1)"
    using waitLoop_timeout [of tm condition s d err s1 mc start] by simp
next
  fix s d err s1
  assume "poll tm condition s = ((d, err), s1) \<and> \<not> (err = None \<and> d) \<and>
      timeSince start s1 \<le> WaitTimeoutForCondition mc"
  then show "waitLoop tm mc start condition s =
          waitLoop tm mc start condition
            (s1\<lparr>clock := clock s1 + max 0 (WaitIntervalForCondition mc) + int (overSleep tm (clock s1)),
                trace := trace s1 @ [EvSleep (WaitIntervalForCondition mc)]\<rparr>)"
    using waitLoop_retry [of tm condition s d err s1 start mc] by (simp add: timeSleep_def)
next
  fix s
  show "poll tm condition s =
      (fst (condition s),
       (snd (condition s))\<lparr>clock := clock s + 1 + int (pollTime tm (clock s))\<rparr>)"
    by (rule poll_eq)
next
  fix s1 :: "('m, 's) state"
  show "timeSince start s1 =
      (if 9223372036854775807 \<le> clock s1 - start then 9223372036854775807
       else if clock s1 - start \<le> - 9223372036854775808 then - 9223372036854775808
       else clock s1 - start)"
    by (simp add: timeSince_def maxDuration_def minDuration_def)
next
  show "wait tm mc condition s = waitLoop tm mc (clock s) condition s"
    by (simp add: wait_def timeNow_def)
next
  assume "WaitTimeoutForCondition mc < 9223372036854775807"
  then show "\<exists>y. wait tm mc condition s = Some y"
    using wait_returns [of mc tm condition s] by (simp add: maxDuration_def)
next
  fix n assume "fst (poll tm condition (loopState tm mc condition n s)) = (True, None)"
  then show "\<exists>y. wait tm mc condition s = Some y" by (rule wait_eventually)
next
  assume "9223372036854775807 \<le> WaitTimeoutForCondition mc"
  then show "(\<exists>y. wait tm mc condition s = Some y) \<longleftrightarrow>
       (\<exists>n. fst (poll tm condition (loopState tm mc condition n s)) = (True, None))"
    using wait_returns_iff [of mc tm condition s] by (simp add: maxDuration_def)
next
  fix s0 show "loopState tm mc condition 0 s0 = s0" by simp
next
  fix n s0
  show "loopState tm mc condition (Suc n) s0 =
      loopState tm mc condition n
        (timeSleep (overSleep tm (clock (snd (poll tm condition s0)))) (WaitIntervalForCondition mc)
           (snd (poll tm condition s0)))" by simp
next
  fix y assume "wait tm mc condition s = Some y"
  then show "(fst y = None \<and> (\<exists>s0. poll tm condition s0 = ((True, None), snd y))) \<or>
      (\<exists>s0 d err. poll tm condition s0 = ((d, err), snd y) \<and> \<not> (err = None \<and> d) \<and>
         WaitTimeoutForCondition mc < timeSince (clock s) (snd y) \<and>
         fst y = Some (WaitTimedOut (WaitTimeoutForCondition mc) err))"
    using waitLoop_result [of tm mc "clock s" condition s y]
    by (simp add: wait_def timeNow_def)
next
  assume "WaitTimeoutForCondition mc < 9223372036854775807"
  then show "\<exists>out. ConfigBased_Start tm nwc mc s = Some out"
    using ConfigBased_Start_returns [of mc tm nwc s] by (simp add: maxDuration_def)
next
  fix e s'
  show "ConfigBased_Start tm nwc mc s = Some (Fatal e s') \<longleftrightarrow>
      wait tm mc (startAllWatchControllers nwc mc) s = Some (Some e, s')"
    by (rule ConfigBased_Start_Fatal)
next
  fix mc' :: "('m, 's) ConfigBasedMetaController" and evs :: "('m, 's) event list"
  assume a: "(\<forall>opt \<in> set opts.
         opt \<in> range SetGenericControllerAsConfigFn \<union> range SetMetaControllerConfigPath) \<and>
      NewConfigBasedMetaController Load ListGCs workerCount opts = (Inr mc', evs)"
  from New_defaults [of opts Load ListGCs workerCount mc' evs] a
  show d: "WaitTimeoutForCondition mc' = 1800000000000" and "WaitIntervalForCondition mc' = 1000000000"
    by simp_all
  show "\<exists>out. ConfigBased_Start tm nwc mc' (initial now evs) = Some out"
    by (rule ConfigBased_Start_returns) (simp add: d maxDuration_def)
qed

theorem wait_polls_until_done_or_timeout_witness:
  "poll onTime (startAllWatchControllers alwaysUp exampleMC) afterFailedPass =
     ((True, None), afterRetry) \<and>
   waitLoop onTime exampleMC 0 (startAllWatchControllers alwaysUp exampleMC) afterFailedPass =
     Some (None, afterRetry) \<and>
   ConfigBased_Start onTime staysDown shortTimeoutMC (initial 0 []) =
     Some (Fatal (WaitTimedOut 3000000000
                   (Some (Wrapped ''Failed to sync key ns/b'' (External ''discovery''))))
             afterTimeout) \<and>
   wait onTime shortTimeoutMC (startAllWatchControllers staysDown shortTimeoutMC) (initial 0 []) =
     Some (Some (WaitTimedOut 3000000000
                   (Some (Wrapped ''Failed to sync key ns/b'' (External ''discovery'')))),
           afterTimeout) \<and>
   ConfigBased_Start slowTime staysDown shortTimeoutMC (initial 0 []) =
     Some (Fatal (WaitTimedOut 3000000000
                   (Some (Wrapped ''Failed to sync key ns/b'' (External ''discovery''))))
             (afterTimeout\<lparr>clock := 3000008150\<rparr>)) \<and>
   ConfigBased_Start onTime staysDown (shortTimeoutMC\<lparr>WaitTimeoutForCondition := 0\<rparr>) (initial 0 []) =
     Some (Fatal (WaitTimedOut 0
                   (Some (Wrapped ''Failed to sync key ns/b'' (External ''discovery''))))
             (afterFailedPass\<lparr>clock := 1\<rparr>)) \<and>
   ConfigBased_Start onTime staysDown
       (shortTimeoutMC\<lparr>WaitTimeoutForCondition := 2, WaitIntervalForCondition := - 5\<rparr>) (initial 0 []) =
     Some (Fatal (WaitTimedOut 2
                   (Some (Wrapped ''Failed to sync key ns/b'' (External ''discovery''))))
             \<lparr>WatchControllers = [(''ns/a'', wcA)], clock = 3,
              trace =
                [EvNew 0 (thing ''a'' 0 1), EvStart wcA 2, EvNew 1 (thing ''b'' 0 3), EvSleep (- 5),
                 EvNew 2 (thing ''b'' 0 3), EvSleep (- 5), EvNew 3 (thing ''b'' 0 3)],
              nwcCalls = 4\<rparr>) \<and>
   WaitTimeoutForCondition exampleMC < 9223372036854775807 \<and>
   (\<exists>out. ConfigBased_Start onTime staysDown exampleMC (initial 0 []) = Some out) \<and>
   fst (poll onTime (startAllWatchControllers downOnce foreverMC)
          (loopState onTime foreverMC (startAllWatchControllers downOnce foreverMC) 1 (initial 0 []))) =
     (True, None) \<and>
   (\<exists>y. wait onTime foreverMC (startAllWatchControllers downOnce foreverMC) (initial 0 []) = Some y) \<and>
   NewConfigBasedMetaController exampleLoad Inr 2
       [SetMetaControllerConfigPath ''/etc/metac'', SetGenericControllerAsConfigFn (Some (Inr []))] =
     (Inr exampleMC, [EvLoad ''/etc/metac'', EvListGenericControllers]) \<and>
   WaitTimeoutForCondition exampleMC = 1800000000000 \<and>
   WaitIntervalForCondition exampleMC = 1000000000"
proof -
  note inst1 = wait_polls_until_done_or_timeout
     [where mc = exampleMC and start = 0 and tm = onTime
        and condition = "startAllWatchControllers alwaysUp exampleMC"]
  note succeeds = inst1 [THEN conjunct1, rule_format]
  note inst2 = wait_polls_until_done_or_timeout
     [where mc = shortTimeoutMC and nwc = staysDown and s = "initial 0 []" and tm = onTime]
  note fatal = inst2 [THEN conjunct2, THEN conjunct2, THEN conjunct2, THEN conjunct2, THEN conjunct2,
      THEN conjunct2, THEN conjunct2, THEN conjunct2, THEN conjunct2, THEN conjunct2, THEN conjunct2,
      THEN conjunct2, THEN conjunct2, THEN conjunct1, rule_format]
  note inst3 = wait_polls_until_done_or_timeout
     [where mc = exampleMC and nwc = staysDown and s = "initial 0 []" and tm = onTime
       and Load = exampleLoad and ListGCs = Inr and workerCount = 2
       and opts = "[SetMetaControllerConfigPath ''/etc/metac'', SetGenericControllerAsConfigFn (Some (Inr []))]"]
  note returns = inst3 [THEN conjunct2, THEN conjunct2, THEN conjunct2, THEN conjunct2, THEN conjunct2,
      THEN conjunct2, THEN conjunct2, THEN conjunct2, THEN conjunct2, THEN conjunct2, THEN conjunct2,
      THEN conjunct2, THEN conjunct1, rule_format]
  note defaults = inst3 [THEN conjunct2, THEN conjunct2, THEN conjunct2, THEN conjunct2, THEN conjunct2,
      THEN conjunct2, THEN conjunct2, THEN conjunct2, THEN conjunct2, THEN conjunct2, THEN conjunct2,
      THEN conjunct2, THEN conjunct2, THEN conjunct2, rule_format]
  note inst4 = wait_polls_until_done_or_timeout
     [where mc = foreverMC and tm = onTime and s = "initial 0 []"
        and condition = "startAllWatchControllers downOnce foreverMC"]
  note eventually = inst4 [THEN conjunct2, THEN conjunct2, THEN conjunct2, THEN conjunct2, THEN conjunct2,
      THEN conjunct2, THEN conjunct2, THEN conjunct1, rule_format]
  have a: "poll onTime (startAllWatchControllers alwaysUp exampleMC) afterFailedPass =
     ((True, None), afterRetry)"
    by code_simp
  note b = succeeds [OF a]
  have c: "ConfigBased_Start onTime staysDown shortTimeoutMC (initial 0 []) =
     Some (Fatal (WaitTimedOut 3000000000
                   (Some (Wrapped ''Failed to sync key ns/b'' (External ''discovery''))))
             afterTimeout)"
    by code_simp
  note d = fatal [THEN iffD1, OF c]
  have c1: "ConfigBased_Start slowTime staysDown shortTimeoutMC (initial 0 []) =
     Some (Fatal (WaitTimedOut 3000000000
                   (Some (Wrapped ''Failed to sync key ns/b'' (External ''discovery''))))
             (afterTimeout\<lparr>clock := 3000008150\<rparr>))"
    by code_simp
  have c2: "ConfigBased_Start onTime staysDown (shortTimeoutMC\<lparr>WaitTimeoutForCondition := 0\<rparr>) (initial 0 []) =
     Some (Fatal (WaitTimedOut 0
                   (Some (Wrapped ''Failed to sync key ns/b'' (External ''discovery''))))
             (afterFailedPass\<lparr>clock := 1\<rparr>))"
    by code_simp
  have c3: "ConfigBased_Start onTime staysDown
       (shortTimeoutMC\<lparr>WaitTimeoutForCondition := 2, WaitIntervalForCondition := - 5\<rparr>) (initial 0 []) =
     Some (Fatal (WaitTimedOut 2
                   (Some (Wrapped ''Failed to sync key ns/b'' (External ''discovery''))))
             \<lparr>WatchControllers = [(''ns/a'', wcA)], clock = 3,
              trace =
                [EvNew 0 (thing ''a'' 0 1), EvStart wcA 2, EvNew 1 (thing ''b'' 0 3), EvSleep (- 5),
                 EvNew 2 (thing ''b'' 0 3), EvSleep (- 5), EvNew 3 (thing ''b'' 0 3)],
              nwcCalls = 4\<rparr>)"
    by code_simp
  have e: "WaitTimeoutForCondition exampleMC < 9223372036854775807" by code_simp
  note f = returns [OF e]
  have e1: "fst (poll onTime (startAllWatchControllers downOnce foreverMC)
          (loopState onTime foreverMC (startAllWatchControllers downOnce foreverMC) 1 (initial 0 []))) =
     (True, None)"
    by code_simp
  note f1 = eventually [OF e1]
  have g: "NewConfigBasedMetaController exampleLoad Inr 2
       [SetMetaControllerConfigPath ''/etc/metac'', SetGenericControllerAsConfigFn (Some (Inr []))] =
     (Inr exampleMC, [EvLoad ''/etc/metac'', EvListGenericControllers])"
    by code_simp
  have o: "\<forall>opt \<in> set [SetMetaControllerConfigPath ''/etc/metac'',
               SetGenericControllerAsConfigFn (Some (Inr []))].
             opt \<in> range SetGenericControllerAsConfigFn \<union> range SetMetaControllerConfigPath"
    by simp
  from defaults [OF conjI [OF o g]]
  have h: "WaitTimeoutForCondition exampleMC = 1800000000000"
    and i: "WaitIntervalForCondition exampleMC = 1000000000" by simp_all
  show ?thesis
    apply (intro conjI)
               apply (rule a)
              apply (rule b)
             apply (rule c)
            apply (rule d)
           apply (rule c1)
          apply (rule c2)
         apply (rule c3)
          apply (rule e)
         apply (rule f)
        apply (rule e1)
       apply (rule f1)
      apply (rule g)
     apply (rule h)
    apply (rule i)
    done
qed


section \<open>Where the definitions come from\<close>

lemma New_with_path:
  assumes "runOptions opts newObj = Inr obj" "ConfigPath obj \<noteq> []"
  shows "NewConfigBasedMetaController Load ListGCs workerCount opts =
     (case Load (ConfigPath obj) of
        Inl err \<Rightarrow> (Inl err, [EvLoad (ConfigPath obj)])
      | Inr mconfigs \<Rightarrow>
          (case ListGCs mconfigs of
             Inl err \<Rightarrow> Inl err
           | Inr gctls \<Rightarrow> Inr (obj\<lparr>GenericControllerConfigs := gctls, WorkerCount := workerCount\<rparr>),
           [EvLoad (ConfigPath obj), EvListGenericControllers]))"
  using assms by (simp add: NewConfigBasedMetaController_def split: sum.splits)

lemma New_with_function:
  assumes "runOptions opts newObj = Inr obj" "ConfigPath obj = []"
    "GenericControllerAsConfigFn obj = Some fn"
  shows "NewConfigBasedMetaController Load ListGCs workerCount opts =
     (case fn of
        Inl err \<Rightarrow> Inl err
      | Inr gctls \<Rightarrow> Inr (obj\<lparr>GenericControllerConfigs := gctls, WorkerCount := workerCount\<rparr>),
      [EvConfigFn])"
  using assms by (simp add: NewConfigBasedMetaController_def split: sum.splits)

lemma New_with_neither:
  assumes "runOptions opts newObj = Inr obj" "ConfigPath obj = []"
    "GenericControllerAsConfigFn obj = None"
  shows "NewConfigBasedMetaController Load ListGCs workerCount opts = (Inl BothEmpty, [])"
  using assms by (simp add: NewConfigBasedMetaController_def)

lemma New_option_error:
  assumes "runOptions opts newObj = Inl err"
  shows "NewConfigBasedMetaController Load ListGCs workerCount opts = (Inl err, [])"
  using assms by (simp add: NewConfigBasedMetaController_def)

text \<open>
  C7. Let \<open>obj\<close> be the instance after the options have run. With a non-empty
  \<^verbatim>\<open>ConfigPath\<close>, the constructor calls \<^verbatim>\<open>Load\<close> on the path, takes the definitions from what
  was loaded and never calls the function, whether a function is set or not. With an
  empty path and a function, it calls the function and takes its definitions. With
  neither, it fails with an error and calls nothing. The function is called only when
  the path is empty. The two setters, in either order, give an instance with both set.
\<close>

theorem config_path_overrides_function:
  fixes opts :: "('m, 's) ConfigBasedMetaControllerOption list"
    and fn' :: "(error + ('m, 's) GenericController list) option"
  shows
  "(\<forall>obj. runOptions opts newObj = Inr obj \<and> ConfigPath obj \<noteq> [] \<longrightarrow>
      EvConfigFn \<notin> set (snd (NewConfigBasedMetaController Load ListGCs workerCount opts)) \<and>
      NewConfigBasedMetaController Load ListGCs workerCount opts =
        (case Load (ConfigPath obj) of
           Inl err \<Rightarrow> (Inl err, [EvLoad (ConfigPath obj)])
         | Inr mconfigs \<Rightarrow>
             (case ListGCs mconfigs of
                Inl err \<Rightarrow> Inl err
              | Inr gctls \<Rightarrow>
                  Inr (obj\<lparr>GenericControllerConfigs := gctls, WorkerCount := workerCount\<rparr>),
              [EvLoad (ConfigPath obj), EvListGenericControllers]))) \<and>
   (\<forall>obj fn. runOptions opts newObj = Inr obj \<and> ConfigPath obj = [] \<and>
        GenericControllerAsConfigFn obj = Some fn \<longrightarrow>
      NewConfigBasedMetaController Load ListGCs workerCount opts =
        (case fn of
           Inl err \<Rightarrow> Inl err
         | Inr gctls \<Rightarrow> Inr (obj\<lparr>GenericControllerConfigs := gctls, WorkerCount := workerCount\<rparr>),
         [EvConfigFn])) \<and>
   (\<forall>obj. runOptions opts newObj = Inr obj \<and> ConfigPath obj = [] \<and>
        GenericControllerAsConfigFn obj = None \<longrightarrow>
      NewConfigBasedMetaController Load ListGCs workerCount opts = (Inl BothEmpty, [])) \<and>
   (EvConfigFn \<in> set (snd (NewConfigBasedMetaController Load ListGCs workerCount opts)) \<longrightarrow>
      (\<exists>obj. runOptions opts newObj = Inr obj \<and> ConfigPath obj = [])) \<and>
   runOptions [SetMetaControllerConfigPath path, SetGenericControllerAsConfigFn fn'] newObj =
     Inr (newObj\<lparr>ConfigPath := path, GenericControllerAsConfigFn := fn'\<rparr>) \<and>
   runOptions [SetGenericControllerAsConfigFn fn', SetMetaControllerConfigPath path] newObj =
     Inr (newObj\<lparr>ConfigPath := path, GenericControllerAsConfigFn := fn'\<rparr>)"
proof (intro conjI allI impI)
  fix obj
  assume a: "runOptions opts newObj = Inr obj \<and> ConfigPath obj \<noteq> []"
  then show n: "NewConfigBasedMetaController Load ListGCs workerCount opts =
        (case Load (ConfigPath obj) of
           Inl err \<Rightarrow> (Inl err, [EvLoad (ConfigPath obj)])
         | Inr mconfigs \<Rightarrow>
             (case ListGCs mconfigs of
                Inl err \<Rightarrow> Inl err
              | Inr gctls \<Rightarrow>
                  Inr (obj\<lparr>GenericControllerConfigs := gctls, WorkerCount := workerCount\<rparr>),
              [EvLoad (ConfigPath obj), EvListGenericControllers]))"
    using New_with_path [of opts obj Load ListGCs workerCount] by simp
  show "EvConfigFn \<notin> set (snd (NewConfigBasedMetaController Load ListGCs workerCount opts))"
    unfolding n by (simp split: sum.splits)
next
  fix obj fn
  assume "runOptions opts newObj = Inr obj \<and> ConfigPath obj = [] \<and>
        GenericControllerAsConfigFn obj = Some fn"
  then show "NewConfigBasedMetaController Load ListGCs workerCount opts =
        (case fn of
           Inl err \<Rightarrow> Inl err
         | Inr gctls \<Rightarrow> Inr (obj\<lparr>GenericControllerConfigs := gctls, WorkerCount := workerCount\<rparr>),
         [EvConfigFn])"
    using New_with_function [of opts obj fn Load ListGCs workerCount] by simp
next
  fix obj
  assume "runOptions opts newObj = Inr obj \<and> ConfigPath obj = [] \<and>
        GenericControllerAsConfigFn obj = None"
  then show "NewConfigBasedMetaController Load ListGCs workerCount opts = (Inl BothEmpty, [])"
    using New_with_neither [of opts obj Load ListGCs workerCount] by simp
next
  assume e: "EvConfigFn \<in> set (snd (NewConfigBasedMetaController Load ListGCs workerCount opts))"
  show "\<exists>obj. runOptions opts newObj = Inr obj \<and> ConfigPath obj = []"
  proof (cases "runOptions opts newObj")
    case (Inl err)
    from New_option_error [OF this, of Load ListGCs workerCount] e show ?thesis by simp
  next
    case (Inr obj)
    show ?thesis
    proof (cases "ConfigPath obj = []")
      case True
      with Inr show ?thesis by simp
    next
      case False
      from New_with_path [OF Inr False, of Load ListGCs workerCount] e show ?thesis
        by (simp split: sum.splits)
    qed
  qed
next
  show "runOptions [SetMetaControllerConfigPath path, SetGenericControllerAsConfigFn fn'] newObj =
     Inr (newObj\<lparr>ConfigPath := path, GenericControllerAsConfigFn := fn'\<rparr>)"
    by (simp add: SetMetaControllerConfigPath_def SetGenericControllerAsConfigFn_def)
  show "runOptions [SetGenericControllerAsConfigFn fn', SetMetaControllerConfigPath path] newObj =
     Inr (newObj\<lparr>ConfigPath := path, GenericControllerAsConfigFn := fn'\<rparr>)"
    by (simp add: SetMetaControllerConfigPath_def SetGenericControllerAsConfigFn_def)
qed

theorem config_path_overrides_function_witness:
  "runOptions [SetMetaControllerConfigPath ''/etc/metac'', SetGenericControllerAsConfigFn (Some (Inr []))]
       (newObj :: (nat, nat) ConfigBasedMetaController) =
     Inr (newObj\<lparr>ConfigPath := ''/etc/metac'', GenericControllerAsConfigFn := Some (Inr [])\<rparr>) \<and>
   ConfigPath ((newObj :: (nat, nat) ConfigBasedMetaController)
      \<lparr>ConfigPath := ''/etc/metac'', GenericControllerAsConfigFn := Some (Inr [])\<rparr>) \<noteq> [] \<and>
   EvConfigFn \<notin> set (snd (NewConfigBasedMetaController exampleLoad Inr 2
       [SetMetaControllerConfigPath ''/etc/metac'', SetGenericControllerAsConfigFn (Some (Inr []))])) \<and>
   NewConfigBasedMetaController exampleLoad Inr 2
       [SetMetaControllerConfigPath ''/etc/metac'', SetGenericControllerAsConfigFn (Some (Inr []))] =
     (Inr exampleMC, [EvLoad ''/etc/metac'', EvListGenericControllers]) \<and>
   runOptions [SetGenericControllerAsConfigFn (Some (Inr [thing ''a'' 0 1]))]
       (newObj :: (nat, nat) ConfigBasedMetaController) =
     Inr (newObj\<lparr>GenericControllerAsConfigFn := Some (Inr [thing ''a'' 0 1])\<rparr>) \<and>
   NewConfigBasedMetaController exampleLoad Inr 2
       [SetGenericControllerAsConfigFn (Some (Inr [thing ''a'' 0 1]))] =
     (Inr (newObj\<lparr>GenericControllerAsConfigFn := Some (Inr [thing ''a'' 0 1]),
                 GenericControllerConfigs := [thing ''a'' 0 1], WorkerCount := 2\<rparr>), [EvConfigFn]) \<and>
   runOptions [] (newObj :: (nat, nat) ConfigBasedMetaController) = Inr newObj \<and>
   NewConfigBasedMetaController exampleLoad Inr 2 [] = (Inl BothEmpty, [])"
proof -
  let ?both = "[SetMetaControllerConfigPath ''/etc/metac'', SetGenericControllerAsConfigFn (Some (Inr []))]
     :: (nat, nat) ConfigBasedMetaControllerOption list"
  let ?fn = "[SetGenericControllerAsConfigFn (Some (Inr [thing ''a'' 0 1]))]
     :: (nat, nat) ConfigBasedMetaControllerOption list"
  let ?obj = "(newObj :: (nat, nat) ConfigBasedMetaController)
      \<lparr>ConfigPath := ''/etc/metac'', GenericControllerAsConfigFn := Some (Inr [])\<rparr>"
  let ?objf = "(newObj :: (nat, nat) ConfigBasedMetaController)
      \<lparr>GenericControllerAsConfigFn := Some (Inr [thing ''a'' 0 1])\<rparr>"
  note inst = config_path_overrides_function [where opts = ?both and Load = exampleLoad and ListGCs = Inr
      and workerCount = 2 and path = "''/etc/metac''" and fn' = "Some (Inr [])"]
  note setters = inst [THEN conjunct2, THEN conjunct2, THEN conjunct2, THEN conjunct2, THEN conjunct1]
  note withPath = inst [THEN conjunct1, rule_format]
  note instf = config_path_overrides_function [where opts = ?fn and Load = exampleLoad and ListGCs = Inr
      and workerCount = 2]
  note withFn = instf [THEN conjunct2, THEN conjunct1, rule_format]
  note instn = config_path_overrides_function [where opts = "[]" and Load = exampleLoad and ListGCs = Inr
      and workerCount = 2]
  note withNone = instn [THEN conjunct2, THEN conjunct2, THEN conjunct1, rule_format]
  have a: "runOptions ?both newObj = Inr ?obj" by (rule setters)
  have b: "ConfigPath ?obj \<noteq> []" by simp
  from withPath [OF conjI [OF a b]]
  have c: "EvConfigFn \<notin> set (snd (NewConfigBasedMetaController exampleLoad Inr 2 ?both))"
    and d0: "NewConfigBasedMetaController exampleLoad Inr 2 ?both =
        (case exampleLoad (ConfigPath ?obj) of
           Inl err \<Rightarrow> (Inl err, [EvLoad (ConfigPath ?obj)])
         | Inr mconfigs \<Rightarrow>
             (case Inr mconfigs of
                Inl err \<Rightarrow> Inl err
              | Inr gctls \<Rightarrow>
                  Inr (?obj\<lparr>GenericControllerConfigs := gctls, WorkerCount := 2\<rparr>),
              [EvLoad (ConfigPath ?obj), EvListGenericControllers]))"
    by blast+
  from d0 have d: "NewConfigBasedMetaController exampleLoad Inr 2 ?both =
     (Inr exampleMC, [EvLoad ''/etc/metac'', EvListGenericControllers])"
    by (simp add: exampleLoad_def exampleMC_def Minute_def Second_def)
  have e: "runOptions ?fn newObj = Inr ?objf"
    by (simp add: SetGenericControllerAsConfigFn_def)
  have e': "ConfigPath ?objf = []" "GenericControllerAsConfigFn ?objf = Some (Inr [thing ''a'' 0 1])"
    by simp_all
  from withFn [OF conjI [OF e conjI [OF e']]]
  have f: "NewConfigBasedMetaController exampleLoad Inr 2 ?fn =
     (Inr (newObj\<lparr>GenericControllerAsConfigFn := Some (Inr [thing ''a'' 0 1]),
                 GenericControllerConfigs := [thing ''a'' 0 1], WorkerCount := 2\<rparr>), [EvConfigFn])"
    by simp
  have g: "runOptions [] (newObj :: (nat, nat) ConfigBasedMetaController) = Inr newObj" by simp
  have g': "ConfigPath (newObj :: (nat, nat) ConfigBasedMetaController) = []"
    "GenericControllerAsConfigFn (newObj :: (nat, nat) ConfigBasedMetaController) = None" by simp_all
  note h = withNone [OF conjI [OF g conjI [OF g']]]
  show ?thesis
    apply (intro conjI)
           apply (rule a)
          apply (rule b)
         apply (rule c)
        apply (rule d)
       apply (rule e)
      apply (rule f)
     apply (rule g)
    apply (rule h)
    done
qed

section \<open>When the definitions are loaded\<close>

lemma firstOfKey_not_loads: "firstOfKey confs n e \<Longrightarrow> \<not> loads e"
  by (cases e) auto

lemma startAllWatchControllers_no_loads:
  "list_all (\<lambda>e. \<not> loads e) (since s (snd (startAllWatchControllers nwc mc s)))"
  using startAllLoop_firstOfKey [of "GenericControllerConfigs mc" mc s nwc]
  by (auto simp: startAllWatchControllers_def list_all_iff dest: firstOfKey_not_loads)

lemma noLoads_refl: "noLoads s s"
  by (simp add: noLoads_def since_def)

lemma noLoads_trans:
  assumes "noLoads s s1" "noLoads s1 s2"
  shows "noLoads s s2"
proof -
  from assms have p1: "prefix (trace s) (trace s1)" and p2: "prefix (trace s1) (trace s2)"
    by (simp_all add: noLoads_def)
  from p1 p2 have "prefix (trace s) (trace s2)" by (rule prefix_order.trans)
  with assms since_trans [OF p1 p2] show ?thesis by (simp add: noLoads_def)
qed

lemma noLoads_startAllWatchControllers: "noLoads s (snd (startAllWatchControllers nwc mc s))"
  using grows_startAllWatchControllers [of s nwc mc] startAllWatchControllers_no_loads [of s nwc mc]
  by (simp add: noLoads_def grows_def)

lemma noLoads_timeSleep: "noLoads s (timeSleep late d s)"
  by (simp add: noLoads_def timeSleep_def since_def)

lemma noLoads_poll: "noLoads s (snd (poll tm (startAllWatchControllers nwc mc) s))"
  using noLoads_startAllWatchControllers [of s nwc mc] by (simp add: poll_eq noLoads_def since_def)

lemma wait_no_loads:
  assumes "wait tm mc (startAllWatchControllers nwc mc) s = Some y"
  shows "noLoads s (snd y)"
  using assms unfolding wait_def
proof (rule waitLoop_invariant [where I = "noLoads s"])
  show "noLoads s s" by (rule noLoads_refl)
  show "noLoads s (snd (poll tm (startAllWatchControllers nwc mc) s'))" if "noLoads s s'" for s'
    using that noLoads_poll by (rule noLoads_trans)
  show "noLoads s (timeSleep late d s')" if "noLoads s s'" for s' late d
    using that noLoads_timeSleep by (rule noLoads_trans)
qed

lemma ConfigBased_Start_no_loads:
  assumes "ConfigBased_Start tm nwc mc s = Some out"
  shows "list_all (\<lambda>e. \<not> loads e) (since s (stateOf out))"
proof -
  from assms obtain r s1 where y: "wait tm mc (startAllWatchControllers nwc mc) s = Some (r, s1)"
    by (auto simp: ConfigBased_Start_def split: option.splits)
  from wait_no_loads [OF y] have p: "prefix (trace s) (trace s1)"
    and n: "list_all (\<lambda>e. \<not> loads e) (since s s1)" by (simp_all add: noLoads_def)
  from p obtain evs where evs: "trace s1 = trace s @ evs" by (auto simp: prefix_def)
  with n have n': "list_all (\<lambda>e. \<not> loads e) evs" by (simp add: since_def)
  show ?thesis
  proof (cases r)
    case None
    with assms y have "stateOf out = s1\<lparr>trace := trace s1 @ [EvCloseDoneCh]\<rparr>"
      by (auto simp: ConfigBased_Start_def)
    with evs n' show ?thesis by (simp add: since_def)
  next
    case (Some e)
    with assms y have "stateOf out = s1" by (auto simp: ConfigBased_Start_def)
    with n show ?thesis by simp
  qed
qed

lemma New_loads:
  assumes "NewConfigBasedMetaController Load ListGCs workerCount opts = (Inr mc, evs)"
  shows "(ConfigPath mc \<noteq> [] \<and> evs = [EvLoad (ConfigPath mc), EvListGenericControllers] \<and>
            (\<exists>mconfigs. Load (ConfigPath mc) = Inr mconfigs \<and>
               ListGCs mconfigs = Inr (GenericControllerConfigs mc))) \<or>
         (ConfigPath mc = [] \<and> evs = [EvConfigFn] \<and>
            GenericControllerAsConfigFn mc = Some (Inr (GenericControllerConfigs mc)))"
  using assms
  by (auto simp: NewConfigBasedMetaController_def split: sum.splits if_splits option.splits)

text \<open>
  C8, as stated, fails: with a configuration path the definitions are loaded by
  \<^verbatim>\<open>NewConfigBasedMetaController\<close>, before \<^verbatim>\<open>Start\<close> is called, and \<^verbatim>\<open>Start\<close> loads nothing.
\<close>

theorem load_at_start_counterexample:
  "NewConfigBasedMetaController exampleLoad Inr 2
       [SetMetaControllerConfigPath ''/etc/metac'', SetGenericControllerAsConfigFn (Some (Inr []))] =
     (Inr exampleMC, [EvLoad ''/etc/metac'', EvListGenericControllers]) \<and>
   ConfigBased_Start onTime alwaysUp exampleMC (initial 0 [EvLoad ''/etc/metac'', EvListGenericControllers]) =
     Some (Returned afterStart) \<and>
   since (initial 0 [EvLoad ''/etc/metac'', EvListGenericControllers]) afterStart =
     [EvNew 0 (thing ''a'' 0 1), EvStart wcA 2,
      EvNew 1 (thing ''b'' 0 3), EvStart \<lparr>wcRef = 1, GCtlConfig = thing ''b'' 0 3\<rparr> 2,
      EvNew 2 (thing ''c'' 0 4), EvStart \<lparr>wcRef = 2, GCtlConfig = thing ''c'' 0 4\<rparr> 2,
      EvCloseDoneCh] \<and>
   \<not> list_ex loads (since (initial 0 [EvLoad ''/etc/metac'', EvListGenericControllers]) afterStart)"
  by code_simp

text \<open>
  C8, amended. The config based supervisor loads the full list of definitions at its
  construction: a successful \<^verbatim>\<open>NewConfigBasedMetaController\<close> has either called \<^verbatim>\<open>Load\<close> on the
  path and listed the definitions, or called the function, and stored what it got in
  \<^verbatim>\<open>GenericControllerConfigs\<close>. \<^verbatim>\<open>Start\<close> loads nothing, in no pass, no call of the condition,
  no sleep and no run that ends; the constructor of watch controllers is only called with stored definitions.
\<close>

theorem load_at_construction:
  fixes nwc :: "('m, 's) nwc"
  shows
  "(NewConfigBasedMetaController Load ListGCs workerCount opts = (Inr mc, evs) \<longrightarrow>
      ((ConfigPath mc \<noteq> [] \<and> evs = [EvLoad (ConfigPath mc), EvListGenericControllers] \<and>
          (\<exists>mconfigs. Load (ConfigPath mc) = Inr mconfigs \<and>
             ListGCs mconfigs = Inr (GenericControllerConfigs mc))) \<or>
       (ConfigPath mc = [] \<and> evs = [EvConfigFn] \<and>
          GenericControllerAsConfigFn mc = Some (Inr (GenericControllerConfigs mc))))) \<and>
   (\<forall>out. ConfigBased_Start tm nwc mc s = Some out \<longrightarrow>
      list_all (\<lambda>e. \<not> loads e) (since s (stateOf out))) \<and>
   list_all (\<lambda>e. \<not> loads e) (since s (snd (startAllWatchControllers nwc mc s))) \<and>
   list_all (\<lambda>e. \<not> loads e) (since s (timeSleep late d s)) \<and>
   list_all (\<lambda>e. \<not> loads e) (since s (snd (poll tm (startAllWatchControllers nwc mc) s))) \<and>
   (\<forall>conf \<in> set (attempted (since s (snd (startAllWatchControllers nwc mc s)))).
      conf \<in> set (GenericControllerConfigs mc))"
proof (intro conjI allI impI ballI)
  assume "NewConfigBasedMetaController Load ListGCs workerCount opts = (Inr mc, evs)"
  then show "(ConfigPath mc \<noteq> [] \<and> evs = [EvLoad (ConfigPath mc), EvListGenericControllers] \<and>
          (\<exists>mconfigs. Load (ConfigPath mc) = Inr mconfigs \<and>
             ListGCs mconfigs = Inr (GenericControllerConfigs mc))) \<or>
       (ConfigPath mc = [] \<and> evs = [EvConfigFn] \<and>
          GenericControllerAsConfigFn mc = Some (Inr (GenericControllerConfigs mc)))"
    by (rule New_loads)
next
  fix out assume "ConfigBased_Start tm nwc mc s = Some out"
  then show "list_all (\<lambda>e. \<not> loads e) (since s (stateOf out))" by (rule ConfigBased_Start_no_loads)
next
  show "list_all (\<lambda>e. \<not> loads e) (since s (snd (startAllWatchControllers nwc mc s)))"
    by (rule startAllWatchControllers_no_loads)
  show "list_all (\<lambda>e. \<not> loads e) (since s (timeSleep late d s))"
    by (simp add: timeSleep_def since_def)
  show "list_all (\<lambda>e. \<not> loads e) (since s (snd (poll tm (startAllWatchControllers nwc mc) s)))"
    using noLoads_poll [of s tm nwc mc] by (simp add: noLoads_def)
next
  fix conf assume c: "conf \<in> set (attempted (since s (snd (startAllWatchControllers nwc mc s))))"
  have "conf \<in> set (attempted evs) \<Longrightarrow> list_all (firstOfKey confs n) evs \<Longrightarrow> conf \<in> set confs"
    for evs :: "('m, 's) event list" and confs n
  proof (induction evs rule: attempted.induct)
    case (2 k d evs)
    then show ?case by (auto dest: find_Some_iff [THEN iffD1] simp: in_set_conv_nth)
  qed auto
  from this [OF c] startAllLoop_firstOfKey [of "GenericControllerConfigs mc" mc s nwc]
  show "conf \<in> set (GenericControllerConfigs mc)"
    by (simp add: startAllWatchControllers_def)
qed

theorem load_at_construction_witness:
  "NewConfigBasedMetaController exampleLoad Inr 2
       [SetMetaControllerConfigPath ''/etc/metac'', SetGenericControllerAsConfigFn (Some (Inr []))] =
     (Inr exampleMC, [EvLoad ''/etc/metac'', EvListGenericControllers]) \<and>
   (\<exists>mconfigs. exampleLoad (ConfigPath exampleMC) = Inr mconfigs \<and>
      (Inr mconfigs :: error + (nat, nat) GenericController list) =
        Inr (GenericControllerConfigs exampleMC)) \<and>
   ConfigBased_Start onTime alwaysUp exampleMC (initial 0 [EvLoad ''/etc/metac'', EvListGenericControllers]) =
     Some (Returned afterStart) \<and>
   list_all (\<lambda>e. \<not> loads e)
     (since (initial 0 [EvLoad ''/etc/metac'', EvListGenericControllers]) (stateOf (Returned afterStart))) \<and>
   thing ''b'' 0 3 \<in> set (attempted (since afterFailedPass
      (snd (startAllWatchControllers alwaysUp exampleMC afterFailedPass)))) \<and>
   thing ''b'' 0 3 \<in> set (GenericControllerConfigs exampleMC)"
proof -
  let ?both = "[SetMetaControllerConfigPath ''/etc/metac'', SetGenericControllerAsConfigFn (Some (Inr []))]
     :: (nat, nat) ConfigBasedMetaControllerOption list"
  let ?evs = "[EvLoad ''/etc/metac'', EvListGenericControllers] :: (nat, nat) event list"
  note inst = load_at_construction [where Load = exampleLoad and ListGCs = Inr and workerCount = 2
      and opts = ?both and mc = exampleMC and evs = ?evs and nwc = alwaysUp and s = "initial 0 ?evs"
      and tm = onTime]
  note inst' = load_at_construction [where mc = exampleMC and nwc = alwaysUp and s = afterFailedPass]
  note loaded = inst [THEN conjunct1, rule_format]
  note started = inst [THEN conjunct2, THEN conjunct1, rule_format]
  note configured = inst' [THEN conjunct2, THEN conjunct2, THEN conjunct2, THEN conjunct2, THEN conjunct2,
      rule_format]
  have a: "NewConfigBasedMetaController exampleLoad Inr 2 ?both = (Inr exampleMC, ?evs)"
    by code_simp
  from loaded [OF a]
  have b: "\<exists>mconfigs. exampleLoad (ConfigPath exampleMC) = Inr mconfigs \<and>
      (Inr mconfigs :: error + (nat, nat) GenericController list) =
        Inr (GenericControllerConfigs exampleMC)"
    by auto
  have c: "ConfigBased_Start onTime alwaysUp exampleMC (initial 0 ?evs) = Some (Returned afterStart)"
    by code_simp
  note d = started [OF c]
  have e: "thing ''b'' 0 3 \<in> set (attempted (since afterFailedPass
      (snd (startAllWatchControllers alwaysUp exampleMC afterFailedPass))))"
    by code_simp
  note f = configured [OF e]
  show ?thesis
    apply (intro conjI)
         apply (rule a)
        apply (rule b)
       apply (rule c)
      apply (rule d)
     apply (rule e)
    apply (rule f)
    done
qed

section \<open>Stopping a supervisor\<close>






lemma consistent_neutrals:
  "consistent s \<Longrightarrow> \<forall>e \<in> set evs. neutral e \<Longrightarrow> consistent (s\<lparr>trace := trace s @ evs\<rparr>)"
  by (rule consistent_neutral)














lemma live_started: "live c \<Longrightarrow> started c"
  by (auto simp: live_def started_def)







































end
